theory Spec2Isabelle
  imports Complex_Main "HOL-Library.Word" "HOL-Library.Multiset"
begin

section \<open>Values and sentinels\<close>

text \<open>
  The per-sample values (\<open>int32_t *qry_arr, *gt_arr\<close>) are 32-bit words read as signed
  numbers; the counters \<open>uint32_t *ndiff, *ncnt, ncmp\<close> are 32-bit words read as unsigned
  numbers, so that \<open>++\<close> wraps around as it does in C.  Sample indices, pair indices and
  the \<open>int\<close> loop counters are natural numbers.  The \<open>double\<close> values of the HWE score are
  idealised as real numbers, with the one non-number the code can produce (the quotient
  \<open>0/0\<close>) written out.
\<close>

type_synonym int32 = "32 word"
type_synonym uint32 = "32 word"

text \<open>
  Modelled from the spec: the missing and vector-end sentinels and the allele decoding
  are macros of htslib's \<open>vcf.h\<close>, which is not among the sources.  They are given the
  values htslib gives them: \<open>bcf_int32_missing = INT32_MIN\<close>,
  \<open>bcf_int32_vector_end = INT32_MIN + 1\<close>, \<open>bcf_gt_missing = 0\<close>,
  \<open>bcf_gt_is_missing(val) = ((val)>>1 ? 0 : 1)\<close> and
  \<open>bcf_gt_allele(val) = (((val)>>1) - 1)\<close>.
\<close>

definition bcf_int32_missing :: int32 where
  "bcf_int32_missing = 0x80000000"

definition bcf_int32_vector_end :: int32 where
  "bcf_int32_vector_end = 0x80000001"

definition bcf_gt_missing :: int32 where
  "bcf_gt_missing = 0"

definition bcf_gt_is_missing :: "int32 \<Rightarrow> bool" where
  "bcf_gt_is_missing val = (signed_drop_bit 1 val = 0)"

definition bcf_gt_allele :: "int32 \<Rightarrow> int32" where
  "bcf_gt_allele val = signed_drop_bit 1 val - 1"

section \<open>Genotype view: the macros of the default branch\<close>

text \<open>
  A pointer \<open>ptr = arr + k\<close> is the array with the offset; \<open>ptr[n]\<close> is \<open>arr ! (k + n)\<close>.
  \<open>HAS_GT\<close>, \<open>HAS_PL\<close>, \<open>MIN_PL\<close>, \<open>DSG_PL\<close> and \<open>DSG_GT\<close> are the macros of lines 440-444;
  \<open><\<close> on \<open>int32_t\<close> is the signed comparison.
\<close>

definition HAS_GT :: "int32 list \<Rightarrow> nat \<Rightarrow> bool" where
  "HAS_GT arr k =
     (\<not> bcf_gt_is_missing (arr ! k) \<and> \<not> bcf_gt_is_missing (arr ! (k + 1))
      \<and> arr ! (k + 1) \<noteq> bcf_int32_vector_end)"

definition HAS_PL :: "int32 list \<Rightarrow> nat \<Rightarrow> bool" where
  "HAS_PL arr k =
     (arr ! k \<noteq> bcf_int32_missing \<and> arr ! (k + 1) \<noteq> bcf_int32_missing
      \<and> arr ! (k + 2) \<noteq> bcf_int32_missing
      \<and> arr ! (k + 1) \<noteq> bcf_int32_vector_end \<and> arr ! (k + 2) \<noteq> bcf_int32_vector_end)"

definition MIN_PL :: "int32 list \<Rightarrow> nat \<Rightarrow> int32" where
  "MIN_PL arr k =
     (if arr ! k <s arr ! (k + 1)
      then (if arr ! k <s arr ! (k + 2) then arr ! k else arr ! (k + 2))
      else (if arr ! (k + 1) <s arr ! (k + 2) then arr ! (k + 1) else arr ! (k + 2)))"

definition DSG_PL :: "int32 list \<Rightarrow> nat \<Rightarrow> nat" where
  "DSG_PL arr k =
     (if arr ! k <s arr ! (k + 1)
      then (if arr ! k <s arr ! (k + 2) then 0 else 2)
      else (if arr ! (k + 1) <s arr ! (k + 2) then 1 else 2))"

definition DSG_GT :: "int32 list \<Rightarrow> nat \<Rightarrow> nat" where
  "DSG_GT arr k =
     (if bcf_gt_allele (arr ! k) \<noteq> 0 then 1 else 0)
     + (if bcf_gt_allele (arr ! (k + 1)) \<noteq> 0 then 1 else 0)"

text \<open>
  The dosage of the disabled \<open>_SLOWER_BRANCH\<close> (\<open>match_GT_PL\<close>, lines 419-422):
  \<open>*bdsg = 0; min = bptr[0]; for (i=1; i<3; i++) if ( min > bptr[i] ) { min = bptr[i]; *bdsg = i; }\<close>.
  The pair is \<open>(min, *bdsg)\<close>.
\<close>

definition slower_min_dsg :: "int32 list \<Rightarrow> nat \<Rightarrow> int32 \<times> nat" where
  "slower_min_dsg arr k =
     fold (\<lambda>i (mn, dsg). if arr ! (k + i) <s mn then (arr ! (k + i), i) else (mn, dsg))
       [1, 2] (arr ! k, 0)"

definition slower_dsg :: "int32 list \<Rightarrow> nat \<Rightarrow> nat" where
  "slower_dsg arr k = snd (slower_min_dsg arr k)"

section \<open>Pairwise comparator\<close>

text \<open>
  What one round of a comparison loop decides for its pair: \<open>continue\<close> before any counter
  is touched (\<open>NoData\<close>), \<open>ndiff[i]++\<close> and \<open>ncnt[i]++\<close> (\<open>Mismatch\<close>), or \<open>ncnt[i]++\<close> alone
  with \<open>hwe_prob[i] += hwe[d]\<close> when the HWE score is computed (\<open>Match d\<close>).
\<close>

datatype result = NoData | Mismatch | is_Match: Match (hwe_idx: nat)

text \<open>The four loop bodies of the explicit-pairs part of \<open>process_line\<close> (lines 513-595).\<close>

definition cmp_GT_GT :: "bool \<Rightarrow> int32 list \<Rightarrow> nat \<Rightarrow> int32 list \<Rightarrow> nat \<Rightarrow> result" where
  "cmp_GT_GT hom_only qa a ga b =
     (if \<not> HAS_GT qa a then NoData
      else if \<not> HAS_GT ga b then NoData
      else let aval = DSG_GT qa a; bval = DSG_GT ga b in
        if hom_only \<and> bval = 1 then NoData
        else if aval \<noteq> bval then Mismatch
        else Match aval)"

definition cmp_PL_PL :: "bool \<Rightarrow> int32 list \<Rightarrow> nat \<Rightarrow> int32 list \<Rightarrow> nat \<Rightarrow> result" where
  "cmp_PL_PL hom_only qa a ga b =
     (if \<not> HAS_PL qa a then NoData
      else if \<not> HAS_PL ga b then NoData
      else let aval = MIN_PL qa a; bval = MIN_PL ga b in
        if hom_only \<and> ga ! (b + 1) = bval then NoData
        else if \<not> list_ex (\<lambda>k. qa ! (a + k) = aval \<and> ga ! (b + k) = bval) [0..<3] then Mismatch
        else Match (DSG_PL qa a))"

definition cmp_GT_PL :: "bool \<Rightarrow> int32 list \<Rightarrow> nat \<Rightarrow> int32 list \<Rightarrow> nat \<Rightarrow> result" where
  "cmp_GT_PL hom_only qa a ga b =
     (if \<not> HAS_GT qa a then NoData
      else if \<not> HAS_PL ga b then NoData
      else let aval = DSG_GT qa a; bval = MIN_PL ga b in
        if hom_only \<and> ga ! (b + 1) = bval then NoData
        else if ga ! (b + aval) \<noteq> bval then Mismatch
        else Match aval)"

definition cmp_PL_GT :: "bool \<Rightarrow> int32 list \<Rightarrow> nat \<Rightarrow> int32 list \<Rightarrow> nat \<Rightarrow> result" where
  "cmp_PL_GT hom_only qa a ga b =
     (if \<not> HAS_PL qa a then NoData
      else if \<not> HAS_GT ga b then NoData
      else let aval = MIN_PL qa a; bval = DSG_GT ga b in
        if hom_only \<and> bval = 1 then NoData
        else if aval \<noteq> qa ! (a + bval) then Mismatch
        else Match (DSG_PL qa a))"

text \<open>The branch taken for the two representation flags (lines 513, 533, 556, 576).\<close>

definition compare_pair ::
  "bool \<Rightarrow> bool \<Rightarrow> bool \<Rightarrow> int32 list \<Rightarrow> nat \<Rightarrow> int32 list \<Rightarrow> nat \<Rightarrow> result" where
  "compare_pair qry_GT gt_GT hom_only qa a ga b =
     (if qry_GT \<and> gt_GT then cmp_GT_GT hom_only qa a ga b
      else if \<not> qry_GT \<and> \<not> gt_GT then cmp_PL_PL hom_only qa a ga b
      else if qry_GT then cmp_GT_PL hom_only qa a ga b
      else cmp_PL_GT hom_only qa a ga b)"

text \<open>
  The same decisions in the matrix loops (lines 692-797), where the query side is checked
  and its \<open>aval\<close> and \<open>qry_dsg\<close> are computed once per row, before the inner loop,
  and the reference side has passed its \<open>HAS_GT\<close> or \<open>HAS_PL\<close> test.
\<close>

definition row_GT_GT :: "bool \<Rightarrow> nat \<Rightarrow> nat \<Rightarrow> int32 list \<Rightarrow> nat \<Rightarrow> result" where
  "row_GT_GT hom_only aval qry_dsg ga b =
     (let bval = DSG_GT ga b in
        if hom_only \<and> bval = 1 then NoData
        else if aval \<noteq> bval then Mismatch
        else Match qry_dsg)"

definition row_PL_PL ::
  "bool \<Rightarrow> int32 list \<Rightarrow> nat \<Rightarrow> int32 \<Rightarrow> nat \<Rightarrow> int32 list \<Rightarrow> nat \<Rightarrow> result" where
  "row_PL_PL hom_only qa a aval qry_dsg ga b =
     (let bval = MIN_PL ga b in
        if hom_only \<and> bval = ga ! (b + 1) then NoData
        else if \<not> list_ex (\<lambda>k. qa ! (a + k) = aval \<and> ga ! (b + k) = bval) [0..<3] then Mismatch
        else Match qry_dsg)"

definition row_GT_PL :: "bool \<Rightarrow> nat \<Rightarrow> nat \<Rightarrow> int32 list \<Rightarrow> nat \<Rightarrow> result" where
  "row_GT_PL hom_only aval qry_dsg ga b =
     (let bval = MIN_PL ga b in
        if hom_only \<and> bval = ga ! (b + 1) then NoData
        else if ga ! (b + aval) \<noteq> bval then Mismatch
        else Match qry_dsg)"

definition row_PL_GT ::
  "bool \<Rightarrow> int32 list \<Rightarrow> nat \<Rightarrow> int32 \<Rightarrow> nat \<Rightarrow> int32 list \<Rightarrow> nat \<Rightarrow> result" where
  "row_PL_GT hom_only qa a aval qry_dsg ga b =
     (let bval = DSG_GT ga b in
        if hom_only \<and> bval = 1 then NoData
        else if qa ! (a + bval) \<noteq> aval then Mismatch
        else Match qry_dsg)"

section \<open>HWE scorer\<close>

text \<open>
  Lines 499-503.  \<open>af = (double)ac[1]/(ac[0]+ac[1])\<close>: the allele counts are not negative,
  so a zero denominator is the quotient \<open>0/0\<close>, which is not a number; every comparison
  with it is false.  \<open>hwe_arg\<close> lists the three arguments handed to \<open>log\<close>, \<open>hwe_score\<close>
  the three values \<open>hwe[0..2]\<close>.
\<close>

definition min_af :: real where
  "min_af = 1 / 1000"

definition calc_af :: "nat \<times> nat \<Rightarrow> real option" where
  "calc_af ac = (if fst ac + snd ac = 0 then None else Some (real (snd ac) / real (fst ac + snd ac)))"

definition af_gt :: "real option \<Rightarrow> real \<Rightarrow> bool" where
  "af_gt af x = (case af of None \<Rightarrow> False | Some a \<Rightarrow> a > x)"

definition af_lt :: "real option \<Rightarrow> real \<Rightarrow> bool" where
  "af_lt af x = (case af of None \<Rightarrow> False | Some a \<Rightarrow> a < x)"

definition hwe_arg :: "real option \<Rightarrow> real list" where
  "hwe_arg af =
     [if af_gt af min_af then the af * the af else min_af * min_af,
      if af_gt af min_af \<and> af_lt af (1 - min_af) then 2 * the af * (1 - the af)
      else 2 * min_af * (1 - min_af),
      if af_lt af (1 - min_af) then (1 - the af) * (1 - the af) else min_af * min_af]"

definition hwe_score :: "real option \<Rightarrow> real list" where
  "hwe_score af = map (\<lambda>x. - ln x) (hwe_arg af)"

section \<open>Distinctive sites: bitsets and site records\<close>

text \<open>
  Modelled from the spec: \<open>kbitset_t\<close> is htslib's (\<open>kbitset.h\<close>), not among the sources.
  A bitset over \<open>n\<close> pairs is the list of its \<open>n\<close> bits; \<open>kbs_next\<close> visits the set bits
  in ascending order.
\<close>

type_synonym kbitset = "bool list"

definition kbs_init :: "nat \<Rightarrow> kbitset" where
  "kbs_init n = replicate n False"

definition kbs_clear :: "kbitset \<Rightarrow> kbitset" where
  "kbs_clear bs = replicate (length bs) False"

definition kbs_insert :: "kbitset \<Rightarrow> nat \<Rightarrow> kbitset" where
  "kbs_insert bs i = bs[i := True]"

definition kbs_exists :: "kbitset \<Rightarrow> nat \<Rightarrow> bool" where
  "kbs_exists bs i = bs ! i"

definition kbs_elems :: "kbitset \<Rightarrow> nat list" where
  "kbs_elems bs = filter (\<lambda>i. bs ! i) [0..<length bs]"

text \<open>\<open>diff_sites_t\<close> (lines 135-140): \<open>uint32_t ndiff, rid, pos, rand\<close> and the bits.\<close>

datatype diff_sites_t =
  Diff_site (dat_ndiff: uint32) (dat_rid: uint32) (dat_pos: uint32) (dat_rand: uint32)
    (kbs_dat: kbitset)

text \<open>\<open>diff_sites_cmp\<close> (lines 141-150): descending \<open>ndiff\<close>, then ascending \<open>rand\<close>.\<close>

definition diff_sites_cmp :: "diff_sites_t \<Rightarrow> diff_sites_t \<Rightarrow> int" where
  "diff_sites_cmp a b =
     (if dat_ndiff a < dat_ndiff b then 1
      else if dat_ndiff a > dat_ndiff b then - 1
      else if dat_rand a < dat_rand b then - 1
      else if dat_rand a > dat_rand b then 1 else 0)"

text \<open>
  Modelled from the spec: the external sorter (\<open>extsort.h\<close>) is not among the sources.
  \<open>extsort_sort\<close> followed by the calls of \<open>extsort_shift\<close> hands back the records that
  were pushed, each once, in an order in which no record stands before one that
  \<open>diff_sites_cmp\<close> puts first.
\<close>

definition extsort_result :: "diff_sites_t list \<Rightarrow> diff_sites_t list \<Rightarrow> bool" where
  "extsort_result pushed out =
     (mset out = mset pushed \<and>
      list_all (\<lambda>q. list_all (\<lambda>p. diff_sites_cmp (out ! p) (out ! q) \<le> 0) [0..<q])
        [0..<length out])"

section \<open>The state \<open>args_t\<close> and the records of the reader\<close>

text \<open>
  The fields of \<open>args_t\<close> (lines 52-74) that the comparison, the accumulation and the
  report use.  A pointer that may be \<open>NULL\<close> is an option (\<open>qry_smpl\<close>, \<open>gt_smpl\<close>, \<open>pairs\<close>,
  \<open>kbs_diff\<close>) or a flag (\<open>gt_hdr\<close>); \<open>qry_nsamples\<close> and \<open>gt_nsamples\<close> are
  \<open>bcf_hdr_nsamples\<close> of the two headers.  \<open>distinctive_sites\<close> is the number of pairs
  \<open>diff_sites_init\<close> leaves there.  \<open>es\<close> holds the records handed to \<open>extsort_push\<close>, in
  the order of the calls.
\<close>

record args =
  gt_hdr :: bool
  qry_nsamples :: nat
  gt_nsamples :: nat
  qry_use_GT :: bool
  gt_use_GT :: bool
  nqry_smpl :: nat
  ngt_smpl :: nat
  qry_smpl :: "nat list option"
  gt_smpl :: "nat list option"
  pairs :: "(nat \<times> nat) list option"
  npairs :: nat
  hom_only :: bool
  cross_check :: bool
  calc_hwe_prob :: bool
  sort_by_hwe :: bool
  dry_run :: bool
  ntop :: nat
  ndiff :: "uint32 list"
  ncnt :: "uint32 list"
  ncmp :: uint32
  hwe_prob :: "real list"
  qry_arr :: "int32 list"
  gt_arr :: "int32 list"
  distinctive_sites :: nat
  kbs_diff :: "kbitset option"
  es :: "diff_sites_t list"

text \<open>
  One step of the synchronised reader, as \<open>process_line\<close> sees it: \<open>sr_ret\<close> is what
  \<open>bcf_sr_next_line\<close> returned (the number of readers that have the line); \<open>qry_ret\<close> and
  \<open>gt_ret\<close> are what \<open>bcf_get_genotypes\<close> or \<open>bcf_get_format_int32\<close> return for the
  record of the query file and of the \<open>-g\<close> file (the number of values, or a value \<open>\<le> 0\<close>
  when the tag is absent), \<open>qry_vals\<close> and \<open>gt_vals\<close> the buffers they leave; \<open>calc_ac\<close> is
  \<open>Some (ac[0], ac[1])\<close> when \<open>bcf_calc_ac\<close> returns 1; \<open>rec_rid\<close> and \<open>rec_pos\<close> are
  \<open>qry_rec->rid\<close> and \<open>qry_rec->pos\<close>; \<open>rand_val\<close> is what \<open>rand()\<close> returns if the site
  is pushed to the sorter.
\<close>

record line =
  sr_ret :: nat
  qry_ret :: int
  qry_vals :: "int32 list"
  gt_ret :: int
  gt_vals :: "int32 list"
  calc_ac :: "(nat \<times> nat) option"
  rec_rid :: uint32
  rec_pos :: uint32
  rand_val :: uint32

datatype error = Calc_ac_failed | Corrupted_data nat int

text \<open>
  Without a \<open>-g\<close> file \<open>args->gt_arr = args->qry_arr\<close> (line 484): the two pointers name
  one buffer, so reads and writes through \<open>gt_arr\<close> go to \<open>qry_arr\<close>.
\<close>

definition gt_view :: "args \<Rightarrow> int32 list" where
  "gt_view st = (if gt_hdr st then gt_arr st else qry_arr st)"

definition gt_write :: "nat \<Rightarrow> int32 \<Rightarrow> args \<Rightarrow> args" where
  "gt_write k v st =
     (if gt_hdr st then st\<lparr>gt_arr := (gt_arr st)[k := v]\<rparr>
      else st\<lparr>qry_arr := (qry_arr st)[k := v]\<rparr>)"

section \<open>Accumulation engine\<close>

text \<open>
  The counter updates that end a loop body: \<open>args->ndiff[idx]++\<close>,
  \<open>args->hwe_prob[idx] += hwe[d]\<close>, \<open>args->ncnt[idx]++\<close>.  The loops keep \<open>idx\<close> below
  the number of pairs the arrays were allocated for; an update at an index beyond a
  list leaves the list as it is.
\<close>

definition update :: "real list \<Rightarrow> nat \<Rightarrow> result \<Rightarrow> args \<Rightarrow> args" where
  "update hwe i r st =
     (case r of
        NoData \<Rightarrow> st
      | Mismatch \<Rightarrow>
          st\<lparr>ndiff := (ndiff st)[i := ndiff st ! i + 1], ncnt := (ncnt st)[i := ncnt st ! i + 1]\<rparr>
      | Match d \<Rightarrow>
          (if calc_hwe_prob st
           then st\<lparr>hwe_prob := (hwe_prob st)[i := hwe_prob st ! i + hwe ! d],
                   ncnt := (ncnt st)[i := ncnt st ! i + 1]\<rparr>
           else st\<lparr>ncnt := (ncnt st)[i := ncnt st ! i + 1]\<rparr>))"

text \<open>
  \<open>diff_sites_reset\<close> and \<open>diff_sites_push\<close> (lines 177-191); the \<open>int\<close> count of the site
  is stored in the \<open>uint32_t\<close> field.
\<close>

definition diff_sites_reset :: "args \<Rightarrow> args" where
  "diff_sites_reset st = st\<lparr>kbs_diff := map_option kbs_clear (kbs_diff st)\<rparr>"

definition diff_sites_push :: "nat \<Rightarrow> line \<Rightarrow> args \<Rightarrow> args" where
  "diff_sites_push n site st =
     st\<lparr>es := es st @ [Diff_site (of_nat n) (rec_rid site) (rec_pos site) (rand_val site)
                        (case kbs_diff st of Some bs \<Rightarrow> bs | None \<Rightarrow> [])]\<rparr>"

text \<open>
  The explicit-pairs loops (lines 507-598).  \<open>pair_result\<close> is the decision of the round
  \<open>i\<close> for the pair \<open>args->pairs[i]\<close>; the loop state is the local \<open>ndiff\<close> with the
  arguments; \<open>nqry1\<close> and \<open>ngt1\<close> are the numbers of values per sample.
\<close>

definition pair_result :: "args \<Rightarrow> nat \<Rightarrow> nat \<Rightarrow> (nat \<times> nat) list \<Rightarrow> nat \<Rightarrow> result" where
  "pair_result st nqry1 ngt1 ps i =
     (let aptr = fst (ps ! i) * nqry1;
          bptr = snd (ps ! i) * ngt1
      in compare_pair (qry_use_GT st) (gt_use_GT st) (hom_only st)
           (qry_arr st) aptr (gt_view st) bptr)"

definition pairs_body :: "real list \<Rightarrow> nat \<Rightarrow> nat \<Rightarrow> (nat \<times> nat) list \<Rightarrow> nat \<Rightarrow> nat \<times> args \<Rightarrow> nat \<times> args" where
  "pairs_body hwe nqry1 ngt1 ps i = (\<lambda>(n, st).
     let r = pair_result st nqry1 ngt1 ps i;
         st' = update hwe i r st
     in if r = Mismatch \<and> kbs_diff st' \<noteq> None
        then (n + 1, st'\<lparr>kbs_diff := map_option (\<lambda>bs. kbs_insert bs i) (kbs_diff st')\<rparr>)
        else (n, st'))"

definition process_pairs :: "real list \<Rightarrow> nat \<Rightarrow> nat \<Rightarrow> (nat \<times> nat) list \<Rightarrow> line \<Rightarrow> args \<Rightarrow> args" where
  "process_pairs hwe nqry1 ngt1 ps site st =
     (let st1 = (if kbs_diff st \<noteq> None then diff_sites_reset st else st);
          (n, st2) = fold (pairs_body hwe nqry1 ngt1 ps) [0..<npairs st1] (0, st1)
      in if n \<noteq> 0 then diff_sites_push n site st2 else st2)"

text \<open>
  The matrix loops of the default branch (lines 692-797).  The four copies share their
  control flow, which is \<open>matrix_loops\<close>: \<open>row i\<close> is the test of the query sample
  (\<open>None\<close> for \<open>idx += ngt; continue\<close>, otherwise the values computed before the inner
  loop), \<open>body\<close> is one round of the inner loop at the pair index \<open>idx\<close>, and every round
  ends with \<open>idx++\<close>.
\<close>

definition matrix_loops ::
  "bool \<Rightarrow> nat \<Rightarrow> nat \<Rightarrow> (nat \<Rightarrow> 's \<Rightarrow> 'h option) \<Rightarrow> ('h \<Rightarrow> nat \<Rightarrow> nat \<Rightarrow> nat \<Rightarrow> 's \<Rightarrow> 's)
     \<Rightarrow> 's \<Rightarrow> nat \<times> 's" where
  "matrix_loops cross nqry ngts row body s0 =
     fold (\<lambda>i (idx, s).
        let ngt = (if cross then i else ngts) in
        case row i s of
          None \<Rightarrow> (idx + ngt, s)
        | Some h \<Rightarrow> fold (\<lambda>j (idx, s). (idx + 1, body h i j idx s)) [0..<ngt] (idx, s))
       [0..<nqry] (0, s0)"

definition iqry_of :: "args \<Rightarrow> nat \<Rightarrow> nat" where
  "iqry_of st i = (case qry_smpl st of Some l \<Rightarrow> l ! i | None \<Rightarrow> i)"

definition igt_of :: "args \<Rightarrow> nat \<Rightarrow> nat" where
  "igt_of st j = (case gt_smpl st of Some l \<Rightarrow> l ! j | None \<Rightarrow> j)"

definition row_GT :: "nat \<Rightarrow> nat \<Rightarrow> args \<Rightarrow> nat option" where
  "row_GT nqry1 i st =
     (let aptr = iqry_of st i * nqry1 in
      if \<not> HAS_GT (qry_arr st) aptr then None else Some (DSG_GT (qry_arr st) aptr))"

definition row_PL :: "nat \<Rightarrow> nat \<Rightarrow> args \<Rightarrow> (int32 \<times> nat) option" where
  "row_PL nqry1 i st =
     (let aptr = iqry_of st i * nqry1 in
      if \<not> HAS_PL (qry_arr st) aptr then None
      else Some (MIN_PL (qry_arr st) aptr, DSG_PL (qry_arr st) aptr))"

definition body_GT_GT :: "real list \<Rightarrow> nat \<Rightarrow> nat \<Rightarrow> nat \<Rightarrow> nat \<Rightarrow> nat \<Rightarrow> args \<Rightarrow> args" where
  "body_GT_GT hwe ngt1 aval i j idx st =
     (let bptr = igt_of st j * ngt1 in
      if \<not> HAS_GT (gt_view st) bptr then gt_write bptr bcf_gt_missing st
      else update hwe idx (row_GT_GT (hom_only st) aval aval (gt_view st) bptr) st)"

definition body_PL_PL ::
  "real list \<Rightarrow> nat \<Rightarrow> nat \<Rightarrow> int32 \<times> nat \<Rightarrow> nat \<Rightarrow> nat \<Rightarrow> nat \<Rightarrow> args \<Rightarrow> args" where
  "body_PL_PL hwe nqry1 ngt1 h i j idx st =
     (let aptr = iqry_of st i * nqry1; bptr = igt_of st j * ngt1 in
      if \<not> HAS_PL (gt_view st) bptr then gt_write bptr bcf_int32_missing st
      else update hwe idx
             (row_PL_PL (hom_only st) (qry_arr st) aptr (fst h) (snd h) (gt_view st) bptr) st)"

definition body_GT_PL :: "real list \<Rightarrow> nat \<Rightarrow> nat \<Rightarrow> nat \<Rightarrow> nat \<Rightarrow> nat \<Rightarrow> args \<Rightarrow> args" where
  "body_GT_PL hwe ngt1 aval i j idx st =
     (let bptr = igt_of st j * ngt1 in
      if \<not> HAS_PL (gt_view st) bptr then gt_write bptr bcf_int32_missing st
      else update hwe idx (row_GT_PL (hom_only st) aval aval (gt_view st) bptr) st)"

definition body_PL_GT ::
  "real list \<Rightarrow> nat \<Rightarrow> nat \<Rightarrow> int32 \<times> nat \<Rightarrow> nat \<Rightarrow> nat \<Rightarrow> nat \<Rightarrow> args \<Rightarrow> args" where
  "body_PL_GT hwe nqry1 ngt1 h i j idx st =
     (let aptr = iqry_of st i * nqry1; bptr = igt_of st j * ngt1 in
      if \<not> HAS_GT (gt_view st) bptr then gt_write bptr bcf_gt_missing st
      else update hwe idx
             (row_PL_GT (hom_only st) (qry_arr st) aptr (fst h) (snd h) (gt_view st) bptr) st)"

definition process_matrix :: "real list \<Rightarrow> nat \<Rightarrow> nat \<Rightarrow> args \<Rightarrow> args" where
  "process_matrix hwe nqry1 ngt1 st =
     snd (if qry_use_GT st \<and> gt_use_GT st
          then matrix_loops (cross_check st) (nqry_smpl st) (ngt_smpl st)
                 (row_GT nqry1) (body_GT_GT hwe ngt1) st
          else if \<not> qry_use_GT st \<and> \<not> gt_use_GT st
          then matrix_loops (cross_check st) (nqry_smpl st) (ngt_smpl st)
                 (row_PL nqry1) (body_PL_PL hwe nqry1 ngt1) st
          else if qry_use_GT st
          then matrix_loops (cross_check st) (nqry_smpl st) (ngt_smpl st)
                 (row_GT nqry1) (body_GT_PL hwe ngt1) st
          else matrix_loops (cross_check st) (nqry_smpl st) (ngt_smpl st)
                 (row_PL nqry1) (body_PL_GT hwe nqry1 ngt1) st)"

text \<open>
  The pairs the cross-check loops visit with the index each is counted at: the control
  flow of the loops with a body that only records \<open>((i, j), idx)\<close>.  \<open>skipped\<close> lists the
  query samples that fail their test.
\<close>

definition visited :: "bool \<Rightarrow> nat \<Rightarrow> nat \<Rightarrow> nat list \<Rightarrow> ((nat \<times> nat) \<times> nat) list" where
  "visited cross nqry ngts skipped =
     snd (matrix_loops cross nqry ngts (\<lambda>i s. if i \<in> set skipped then None else Some ())
            (\<lambda>h i j idx s. s @ [((i, j), idx)]) [])"

section \<open>\<open>process_line\<close> and the main loop\<close>

definition per_sample :: "bool \<Rightarrow> nat" where
  "per_sample use_GT = (if use_GT then 2 else 3)"

text \<open>Lines 452-463 and 465-485: the values of the record, or \<open>return\<close> (\<open>None\<close>).\<close>

definition fetch_qry :: "args \<Rightarrow> line \<Rightarrow> args \<times> nat option" where
  "fetch_qry st site =
     (st\<lparr>qry_arr := qry_vals site\<rparr>,
      if qry_ret site \<le> 0 then None
      else if qry_ret site \<noteq> int (per_sample (qry_use_GT st) * qry_nsamples st) then None
      else Some (per_sample (qry_use_GT st)))"

definition fetch_gt :: "args \<Rightarrow> line \<Rightarrow> nat \<Rightarrow> args \<times> nat option" where
  "fetch_gt st site nqry1 =
     (if gt_hdr st
      then (st\<lparr>gt_arr := gt_vals site\<rparr>,
            if gt_ret site \<le> 0 then None
            else if gt_ret site \<noteq> int (per_sample (gt_use_GT st) * gt_nsamples st) then None
            else Some (per_sample (gt_use_GT st)))
      else (st, Some nqry1))"

definition process_line :: "args \<Rightarrow> line \<Rightarrow> error + args" where
  "process_line st site =
     (case fetch_qry st site of
        (st1, None) \<Rightarrow> Inr st1
      | (st1, Some nqry1) \<Rightarrow>
          (case fetch_gt st1 site nqry1 of
             (st2, None) \<Rightarrow> Inr st2
           | (st2, Some ngt1) \<Rightarrow>
               (let st3 = st2\<lparr>ncmp := ncmp st2 + 1\<rparr> in
                if calc_hwe_prob st3 \<and> calc_ac site = None then Inl Calc_ac_failed
                else
                  let hwe = (if calc_hwe_prob st3 then hwe_score (calc_af (the (calc_ac site)))
                             else [])
                  in Inr (case pairs st3 of
                            Some ps \<Rightarrow> process_pairs hwe nqry1 ngt1 ps site st3
                          | None \<Rightarrow> process_matrix hwe nqry1 ngt1 st3))))"

text \<open>
  The loop of \<open>main_vcfgtcheck\<close> (lines 1155-1173) over the records the reader yields:
  a record that is not in both files is passed over when there is a \<open>-g\<close> file, and a dry
  run stops after the first record that was compared.
\<close>

fun main_loop :: "args \<Rightarrow> line list \<Rightarrow> error + args" where
  "main_loop st [] = Inr st"
| "main_loop st (site # sites) =
     (if gt_hdr st \<and> sr_ret site \<noteq> 2 then main_loop st sites
      else case process_line st site of
             Inl e \<Rightarrow> Inl e
           | Inr st' \<Rightarrow> if ncmp st' = 1 \<and> dry_run st' then Inr st' else main_loop st' sites)"

section \<open>The pairs that are discordant at a record\<close>

text \<open>
  What the run decides about a record of the stream, read off the state the run is in.
  \<open>compared_state\<close> is the state \<open>process_line\<close> has reached when the comparison loops
  start, the buffers holding the values of the record, with the numbers of values per
  sample; it is \<open>None\<close> when the main loop passes the record over or \<open>process_line\<close>
  returns before the loops.  The explicit pair \<open>i\<close> is discordant at the record when the
  round \<open>i\<close> of the explicit-pairs loops decides \<open>Mismatch\<close>.
\<close>

definition compared_state :: "args \<Rightarrow> line \<Rightarrow> (args \<times> nat \<times> nat) option" where
  "compared_state st site =
     (if gt_hdr st \<and> sr_ret site \<noteq> 2 then None
      else case fetch_qry st site of
             (st1, None) \<Rightarrow> None
           | (st1, Some nqry1) \<Rightarrow>
               (case fetch_gt st1 site nqry1 of
                  (st2, None) \<Rightarrow> None
                | (st2, Some ngt1) \<Rightarrow> Some (st2, nqry1, ngt1)))"

definition discordant_at :: "args \<Rightarrow> line \<Rightarrow> nat \<Rightarrow> bool" where
  "discordant_at st site i =
     (case compared_state st site of
        None \<Rightarrow> False
      | Some (st2, nqry1, ngt1) \<Rightarrow>
          (case pairs st of
             None \<Rightarrow> False
           | Some ps \<Rightarrow> pair_result st2 nqry1 ngt1 ps i = Mismatch))"

text \<open>
  The fields that \<open>init_data\<close> sets and that the comparison of a record reads without
  writing them: two states that agree on them decide alike about every record.
\<close>

definition same_setup :: "args \<Rightarrow> args \<Rightarrow> bool" where
  "same_setup st st' \<longleftrightarrow>
     gt_hdr st' = gt_hdr st \<and> qry_nsamples st' = qry_nsamples st
     \<and> gt_nsamples st' = gt_nsamples st \<and> qry_use_GT st' = qry_use_GT st
     \<and> gt_use_GT st' = gt_use_GT st \<and> hom_only st' = hom_only st
     \<and> pairs st' = pairs st \<and> npairs st' = npairs st \<and> dry_run st' = dry_run st
     \<and> distinctive_sites st' = distinctive_sites st"

section \<open>The counters of a pair across a site\<close>







section \<open>The data arrays of \<open>init_data\<close>\<close>

text \<open>
  Lines 365-374: the number of pairs, unless the explicit pairs have set it, and the
  zeroed arrays \<open>calloc\<close> returns.  \<open>nqry_smpl\<close> and \<open>ngt_smpl\<close> are \<open>int\<close>: the products
  are computed in 32 bits, where they wrap, \<open>/2\<close> is the \<open>int\<close> division, which truncates
  toward zero, and the result is stored in the \<open>uint32_t\<close> \<open>npairs\<close>.
\<close>

definition int_div2 :: "int \<Rightarrow> int" where
  "int_div2 x = (if 0 \<le> x then x div 2 else - ((- x) div 2))"

definition init_npairs :: "args \<Rightarrow> nat" where
  "init_npairs st =
     (if npairs st = 0
      then (if cross_check st
            then unat (word_of_int
                         (int_div2 (sint ((of_nat (nqry_smpl st) :: int32)
                                            * (of_nat (nqry_smpl st) + 1)))) :: uint32)
            else unat ((of_nat (ngt_smpl st) :: int32) * of_nat (nqry_smpl st)))
      else npairs st)"

definition init_arrays :: "args \<Rightarrow> args" where
  "init_arrays st =
     st\<lparr>npairs := init_npairs st,
        ndiff := replicate (init_npairs st) 0,
        ncnt := replicate (init_npairs st) 0,
        hwe_prob := (if calc_hwe_prob st then replicate (init_npairs st) 0 else [])\<rparr>"

section \<open>Distinctive sites: the drain\<close>

text \<open>
  The inner loop of \<open>report_distinctive_sites\<close> (lines 832-840) over the set bits of the
  record: the result is \<open>kbs_blk\<close> with \<open>ndiff_new\<close> and \<open>ndiff_dbg\<close>.
\<close>

definition scan_bits :: "kbitset \<Rightarrow> kbitset \<Rightarrow> kbitset \<times> nat \<times> nat" where
  "scan_bits dat blk =
     fold (\<lambda>i (blk, ndiff_new, ndiff_dbg).
             if kbs_exists blk i then (blk, ndiff_new, ndiff_dbg + 1)
             else (kbs_insert blk i, ndiff_new + 1, ndiff_dbg + 1))
       (kbs_elems dat) (blk, 0, 0)"

text \<open>
  A line \<open>DS\<close> of the output: chromosome (by its id), position, \<open>ndiff_tot\<close>, \<open>iblock\<close>.
  The id and the position are the \<open>int\<close> values \<open>rid\<close> and \<open>pos+1\<close> that \<open>fprintf\<close> is given
  (line 844).
\<close>

datatype ds_line = DS (ds_rid: int) (ds_pos: int) (ds_tot: nat) (ds_block: nat)

text \<open>
  The outer loop (lines 830-849) over the records in the order \<open>extsort_shift\<close> returns
  them; the loop state is \<open>(kbs_blk, ndiff_tot, iblock)\<close>.  The result has one entry per
  record: the line printed for it, if one is; \<open>throw_and_clean\<close> ends the run.
  \<open>diff_sites_shift\<close> reads the \<open>uint32_t\<close> fields \<open>ndiff\<close>, \<open>rid\<close> and \<open>pos\<close> into \<open>int\<close>
  variables (lines 196-198), and \<open>pos+1\<close> is computed in \<open>int\<close>, where it wraps.
\<close>

fun drain :: "nat \<Rightarrow> diff_sites_t list \<Rightarrow> kbitset \<times> nat \<times> nat \<Rightarrow> error + ds_line option list" where
  "drain ndiff_min [] s = Inr []"
| "drain ndiff_min (r # rs) (kbs_blk, ndiff_tot, iblock) =
     (case scan_bits (kbs_dat r) kbs_blk of (blk, ndiff_new, ndiff_dbg) \<Rightarrow>
        if int ndiff_dbg \<noteq> sint (dat_ndiff r) then Inl (Corrupted_data ndiff_dbg (sint (dat_ndiff r)))
        else if ndiff_new = 0 then map_sum id (Cons None) (drain ndiff_min rs (blk, ndiff_tot, iblock))
        else
          let tot = ndiff_tot + ndiff_new;
              l = DS (sint (dat_rid r)) (sint (dat_pos r + 1)) tot iblock
          in if tot < ndiff_min
             then map_sum id (Cons (Some l)) (drain ndiff_min rs (blk, tot, iblock))
             else map_sum id (Cons (Some l)) (drain ndiff_min rs (kbs_clear blk, 0, iblock + 1)))"

definition drain_all :: "args \<Rightarrow> diff_sites_t list \<Rightarrow> error + ds_line option list" where
  "drain_all st rs = drain (distinctive_sites st) rs (kbs_init (npairs st), 0, 0)"

definition report_distinctive_sites :: "args \<Rightarrow> diff_sites_t list \<Rightarrow> error + ds_line list" where
  "report_distinctive_sites st rs = map_sum id (List.map_filter id) (drain_all st rs)"

text \<open>
  The pairs of a block: the set bits of the records whose line carries the block id \<open>b\<close>,
  for the records \<open>rs\<close> and the entries \<open>outs\<close> the drain returns for them.
\<close>

definition block_pairs :: "nat \<Rightarrow> diff_sites_t list \<Rightarrow> ds_line option list \<Rightarrow> nat set" where
  "block_pairs b rs outs =
     (\<Union>(r, out) \<in> set (zip rs outs).
        case out of
          Some l \<Rightarrow> if ds_block l = b then set (kbs_elems (kbs_dat r)) else {}
        | None \<Rightarrow> {})"

section \<open>Report: the sort keys of the top matches\<close>

text \<open>
  \<open>idbl_t\<close> and \<open>cmp_idbl\<close> (lines 802-815), the key \<open>arr[j].val\<close> (lines 913-916, 947-950,
  959-962) and the arrays \<open>report\<close> fills for the query sample \<open>i\<close> before it calls
  \<open>qsort\<close>: lines 910-920 for two sets of samples, lines 944-966 in cross-check mode.
\<close>










section \<open>Concrete states and records\<close>

text \<open>
  The state \<open>calloc\<close> leaves (line 1022), and the states and records on which the
  theorems below are run.
\<close>

definition args0 :: args where
  "args0 =
     \<lparr>gt_hdr = False, qry_nsamples = 0, gt_nsamples = 0, qry_use_GT = False, gt_use_GT = False,
      nqry_smpl = 0, ngt_smpl = 0, qry_smpl = None, gt_smpl = None, pairs = None, npairs = 0,
      hom_only = False, cross_check = False, calc_hwe_prob = False, sort_by_hwe = False,
      dry_run = False, ntop = 0, ndiff = [], ncnt = [], ncmp = 0, hwe_prob = [],
      qry_arr = [], gt_arr = [], distinctive_sites = 0, kbs_diff = None, es = []\<rparr>"

definition line0 :: line where
  "line0 =
     \<lparr>sr_ret = 1, qry_ret = 0, qry_vals = [], gt_ret = 0, gt_vals = [], calc_ac = None,
      rec_rid = 0, rec_pos = 0, rand_val = 0\<rparr>"

text \<open>
  One explicit pair of the samples 0 and 1 of a single file, compared by hard calls
  without the HWE score (\<open>-u GT -p s0,s1 --no-HWE-prob\<close>).
\<close>

definition args_pair :: args where
  "args_pair =
     args0\<lparr>qry_use_GT := True, gt_use_GT := True, qry_nsamples := 2, nqry_smpl := 2,
           pairs := Some [(0, 1)], npairs := 1, ndiff := [0], ncnt := [0]\<rparr>"

text \<open>Two pairs and a threshold of two pairs for the distinctive sites.\<close>

definition args_ds :: args where
  "args_ds = args0\<lparr>npairs := 2, distinctive_sites := 2\<rparr>"

text \<open>
  The explicit pairs of the sample 0 with the samples 1 and 2 of a single file, compared
  by hard calls without the HWE score, with the distinctive sites asked for at a threshold
  of all pairs (\<open>-u GT -p s0,s1,s0,s2 --no-HWE-prob --distinctive-sites 1\<close>), as
  \<open>init_data\<close> leaves the state; and three records of three diploid samples: the sample 2
  differs from the sample 0 in the first two, both samples differ in the third.
\<close>

definition args_sites :: args where
  "args_sites =
     args0\<lparr>qry_use_GT := True, gt_use_GT := True, qry_nsamples := 3, nqry_smpl := 3,
           pairs := Some [(0, 1), (0, 2)], npairs := 2, ndiff := [0, 0], ncnt := [0, 0],
           distinctive_sites := 2, kbs_diff := Some (kbs_init 2)\<rparr>"

definition site_a :: line where
  "site_a = line0\<lparr>qry_ret := 6, qry_vals := [2, 2, 2, 2, 4, 4], rec_pos := 10, rand_val := 5\<rparr>"

definition site_b :: line where
  "site_b = line0\<lparr>qry_ret := 6, qry_vals := [2, 2, 2, 2, 4, 4], rec_pos := 20, rand_val := 6\<rparr>"

definition site_c :: line where
  "site_c = line0\<lparr>qry_ret := 6, qry_vals := [2, 2, 4, 4, 4, 4], rec_pos := 100, rand_val := 7\<rparr>"


text \<open>Four samples of a single file, all against all.\<close>

definition args_cross :: args where
  "args_cross =
     args0\<lparr>qry_nsamples := 4, nqry_smpl := 4, ngt_smpl := 4, cross_check := True\<rparr>"




section \<open>Facts about the genotype view\<close>

lemmas eval_defs = HAS_GT_def HAS_PL_def DSG_GT_def DSG_PL_def MIN_PL_def slower_dsg_def
  slower_min_dsg_def bcf_int32_missing_def bcf_int32_vector_end_def bcf_gt_is_missing_def
  bcf_gt_allele_def word_sless_alt word_sle_eq

lemma less_3_cases: "n < 3 \<Longrightarrow> n = 0 \<or> n = 1 \<or> n = (2::nat)"
  by arith

lemma all_less_3: "(\<forall>m<3. P (m::nat)) \<longleftrightarrow> P 0 \<and> P 1 \<and> P 2"
  by (auto dest: less_3_cases)

lemma ex_less_3: "(\<exists>m<3. P (m::nat)) \<longleftrightarrow> P 0 \<or> P 1 \<or> P 2"
  using all_less_3 [of "\<lambda>m. \<not> P m"] by blast

lemma sint_eq_iff: "(x :: int32) = y \<longleftrightarrow> sint x = sint y"
  by (auto intro: signed_word_eqI)

text \<open>\<open>MIN_PL\<close> is the signed minimum of the three values.\<close>

lemma MIN_PL_iff:
  "n < 3 \<Longrightarrow> arr ! (k + n) = MIN_PL arr k \<longleftrightarrow> (\<forall>m<3. arr ! (k + n) \<le>s arr ! (k + m))"
  by (drule less_3_cases)
     (auto simp: all_less_3 MIN_PL_def word_sle_eq word_sless_alt sint_eq_iff)

text \<open>
  \<open>DSG_PL\<close> is an index of the minimum, the last one; the dosage of the slower branch is
  the first one.
\<close>

lemma MIN_PL_at_DSG_PL: "arr ! (k + DSG_PL arr k) = MIN_PL arr k"
  by (simp add: MIN_PL_def DSG_PL_def)

lemma DSG_PL_last: "n < 3 \<Longrightarrow> arr ! (k + n) = MIN_PL arr k \<Longrightarrow> n \<le> DSG_PL arr k"
  by (drule less_3_cases)
     (auto simp: MIN_PL_def DSG_PL_def word_sless_alt sint_eq_iff split: if_splits)

lemma MIN_PL_at_slower_dsg: "arr ! (k + slower_dsg arr k) = MIN_PL arr k"
  by (auto simp: MIN_PL_def slower_dsg_def slower_min_dsg_def word_sless_alt sint_eq_iff)

lemma slower_dsg_first: "n < 3 \<Longrightarrow> arr ! (k + n) = MIN_PL arr k \<Longrightarrow> slower_dsg arr k \<le> n"
  by (drule less_3_cases)
     (auto simp: MIN_PL_def slower_dsg_def slower_min_dsg_def word_sless_alt sint_eq_iff
           split: if_splits)

lemma DSG_PL_less: "DSG_PL arr k < 3"
  by (simp add: DSG_PL_def)

lemma slower_dsg_less: "slower_dsg arr k < 3"
  by (simp add: slower_dsg_def slower_min_dsg_def)

lemma DSG_GT_less: "DSG_GT arr k < 3"
  by (simp add: DSG_GT_def)

text \<open>
  C1.  The claim: the dosage of a valid likelihood triple is the index of its minimum,
  the lowest one when several entries tie, so that three equal values have dosage 0.
  \<open>DSG_PL\<close> takes the last index of the minimum instead: on the valid triples \<open>0,0,0\<close>
  (a sample without reads), \<open>5,5,5\<close> and \<open>3,3,5\<close> it gives 2, 2 and 1, where the loop of
  the slower branch gives 0.
\<close>

theorem DSG_PL_tie_takes_last_index:
  "HAS_PL [0, 0, 0] 0 \<and> DSG_PL [0, 0, 0] 0 = 2 \<and> slower_dsg [0, 0, 0] 0 = 0
   \<and> HAS_PL [5, 5, 5] 0 \<and> DSG_PL [5, 5, 5] 0 = 2 \<and> slower_dsg [5, 5, 5] 0 = 0
   \<and> HAS_PL [3, 3, 5] 0 \<and> DSG_PL [3, 3, 5] 0 = 1 \<and> slower_dsg [3, 3, 5] 0 = 0"
  by (simp add: eval_defs)

section \<open>Facts about the comparator\<close>

lemma list_ex_upt3: "list_ex P [0..<3] \<longleftrightarrow> (\<exists>k<3. P k)"
  by (simp add: list_ex_iff Bex_def)

lemma cmp_GT_PL_valid:
  "HAS_GT qa a \<Longrightarrow> HAS_PL ga b \<Longrightarrow>
   cmp_GT_PL hom qa a ga b =
     (if hom \<and> ga ! (b + 1) = MIN_PL ga b then NoData
      else if ga ! (b + DSG_GT qa a) = MIN_PL ga b then Match (DSG_GT qa a) else Mismatch)"
  by (simp add: cmp_GT_PL_def Let_def)

lemma row_GT_PL_eq:
  "HAS_GT qa a \<Longrightarrow> HAS_PL ga b \<Longrightarrow>
   row_GT_PL hom (DSG_GT qa a) (DSG_GT qa a) ga b = cmp_GT_PL hom qa a ga b"
  by (auto simp: cmp_GT_PL_def row_GT_PL_def Let_def)

lemma cmp_PL_GT_valid:
  "HAS_PL qa a \<Longrightarrow> HAS_GT ga b \<Longrightarrow>
   cmp_PL_GT hom qa a ga b =
     (if hom \<and> DSG_GT ga b = 1 then NoData
      else if qa ! (a + DSG_GT ga b) = MIN_PL qa a then Match (DSG_PL qa a) else Mismatch)"
  by (auto simp: cmp_PL_GT_def Let_def)

lemma row_PL_GT_eq:
  "HAS_PL qa a \<Longrightarrow> HAS_GT ga b \<Longrightarrow>
   row_PL_GT hom qa a (MIN_PL qa a) (DSG_PL qa a) ga b = cmp_PL_GT hom qa a ga b"
  by (auto simp: cmp_PL_GT_def row_PL_GT_def Let_def)

lemma row_GT_GT_eq:
  "HAS_GT qa a \<Longrightarrow> HAS_GT ga b \<Longrightarrow>
   row_GT_GT hom (DSG_GT qa a) (DSG_GT qa a) ga b = cmp_GT_GT hom qa a ga b"
  by (auto simp: cmp_GT_GT_def row_GT_GT_def Let_def)

lemma cmp_PL_PL_valid:
  "HAS_PL qa a \<Longrightarrow> HAS_PL ga b \<Longrightarrow>
   cmp_PL_PL hom qa a ga b =
     (if hom \<and> ga ! (b + 1) = MIN_PL ga b then NoData
      else if \<exists>k<3. qa ! (a + k) = MIN_PL qa a \<and> ga ! (b + k) = MIN_PL ga b
           then Match (DSG_PL qa a) else Mismatch)"
  by (simp add: cmp_PL_PL_def Let_def list_ex_upt3)

lemma row_PL_PL_eq:
  "HAS_PL qa a \<Longrightarrow> HAS_PL ga b \<Longrightarrow>
   row_PL_PL hom qa a (MIN_PL qa a) (DSG_PL qa a) ga b = cmp_PL_PL hom qa a ga b"
  by (auto simp: cmp_PL_PL_def row_PL_PL_def Let_def)

lemma common_min_DSG_PL:
  "DSG_PL qa a = DSG_PL ga b \<Longrightarrow>
   \<exists>k<3. qa ! (a + k) = MIN_PL qa a \<and> ga ! (b + k) = MIN_PL ga b"
  using MIN_PL_at_DSG_PL [of qa a] MIN_PL_at_DSG_PL [of ga b] DSG_PL_less [of qa a] by metis

lemma common_min_slower_dsg:
  "slower_dsg qa a = slower_dsg ga b \<Longrightarrow>
   \<exists>k<3. qa ! (a + k) = MIN_PL qa a \<and> ga ! (b + k) = MIN_PL ga b"
  using MIN_PL_at_slower_dsg [of qa a] MIN_PL_at_slower_dsg [of ga b] slower_dsg_less [of qa a]
  by metis

lemma same_dosage_not_Mismatch:
  "HAS_PL qa a \<Longrightarrow> HAS_PL ga b
   \<Longrightarrow> DSG_PL qa a = DSG_PL ga b \<or> slower_dsg qa a = slower_dsg ga b
   \<Longrightarrow> cmp_PL_PL hom qa a ga b \<noteq> Mismatch"
  using common_min_DSG_PL [of qa a ga b] common_min_slower_dsg [of qa a ga b]
  by (auto simp: cmp_PL_PL_valid)

text \<open>
  C2, as amended.  A valid hard call against a valid likelihood triple that the
  homozygous-only filter lets through is a Match exactly when the likelihood at the
  index of the call's dosage is the minimum of the triple (no other entry is smaller),
  and a Mismatch otherwise; ties are not broken first.  The loop over explicit pairs
  and the matrix loop decide alike.
\<close>

theorem call_vs_likelihood_match_iff:
  assumes "HAS_GT qa a" and "HAS_PL ga b" and "\<not> (hom \<and> ga ! (b + 1) = MIN_PL ga b)"
  shows "(is_Match (cmp_GT_PL hom qa a ga b) \<longleftrightarrow>
            (\<forall>m<3. ga ! (b + DSG_GT qa a) \<le>s ga ! (b + m)))
       \<and> (cmp_GT_PL hom qa a ga b = Mismatch \<longleftrightarrow>
            \<not> (\<forall>m<3. ga ! (b + DSG_GT qa a) \<le>s ga ! (b + m)))
       \<and> compare_pair True False hom qa a ga b = cmp_GT_PL hom qa a ga b
       \<and> row_GT_PL hom (DSG_GT qa a) (DSG_GT qa a) ga b = cmp_GT_PL hom qa a ga b"
proof -
  have d: "DSG_GT qa a < 3" by (rule DSG_GT_less)
  have m: "ga ! (b + DSG_GT qa a) = MIN_PL ga b
           \<longleftrightarrow> (\<forall>m<3. ga ! (b + DSG_GT qa a) \<le>s ga ! (b + m))"
    by (rule MIN_PL_iff [OF d])
  have c: "cmp_GT_PL hom qa a ga b =
     (if ga ! (b + DSG_GT qa a) = MIN_PL ga b then Match (DSG_GT qa a) else Mismatch)"
    using assms by (auto simp: cmp_GT_PL_valid)
  show ?thesis
    using assms(1,2) unfolding c m [symmetric]
    by (simp add: compare_pair_def row_GT_PL_eq c)
qed

theorem call_vs_likelihood_match_iff_witness:
  "HAS_GT [2, 4] 0 \<and> HAS_PL [3, 3, 5] 0 \<and> is_Match (cmp_GT_PL False [2, 4] 0 [3, 3, 5] 0)
   \<and> compare_pair True False False [2, 4] 0 [3, 3, 5] 0 = cmp_GT_PL False [2, 4] 0 [3, 3, 5] 0"
proof -
  have h1: "HAS_GT [2, 4] 0" by (simp add: eval_defs)
  have h2: "HAS_PL [3, 3, 5] 0" by (simp add: eval_defs)
  have h3: "\<not> (False \<and> [3, 3, 5] ! (0 + 1) = MIN_PL [3, 3, 5] 0)" by simp
  have d: "DSG_GT [2, 4] 0 = 1" by (simp add: eval_defs)
  show ?thesis
    using call_vs_likelihood_match_iff [OF h1 h2 h3] h1 h2 by (simp add: d all_less_3)
qed

text \<open>
  The claim's own example: the hard call \<open>0/1\<close> (the values 2 and 4, dosage 1) against
  the likelihoods \<open>3,3,5\<close>, whose first minimum is at index 0, is a Match in both loops.
\<close>

theorem call_vs_likelihood_tie_counterexample:
  "HAS_GT [2, 4] 0 \<and> HAS_PL [3, 3, 5] 0 \<and> DSG_GT [2, 4] 0 = 1 \<and> slower_dsg [3, 3, 5] 0 = 0
   \<and> compare_pair True False False [2, 4] 0 [3, 3, 5] 0 = Match 1
   \<and> row_GT_PL False 1 1 [3, 3, 5] 0 = Match 1"
  by (simp add: compare_pair_def cmp_GT_PL_def row_GT_PL_def eval_defs)

text \<open>
  C7, as amended.  Two valid likelihood triples that the homozygous-only filter lets
  through are a Match exactly when both attain their minimum at a common index, and a
  Mismatch otherwise.  Triples with equal dosage always are a Match, whichever way ties
  are broken, so the rule is never stricter than the comparison of the dosages.  The
  loop over explicit pairs and the matrix loop decide alike.
\<close>

theorem likelihood_vs_likelihood_match_iff:
  assumes "HAS_PL qa a" and "HAS_PL ga b" and "\<not> (hom \<and> ga ! (b + 1) = MIN_PL ga b)"
  shows "(is_Match (cmp_PL_PL hom qa a ga b) \<longleftrightarrow>
            (\<exists>k<3. (\<forall>m<3. qa ! (a + k) \<le>s qa ! (a + m)) \<and> (\<forall>m<3. ga ! (b + k) \<le>s ga ! (b + m))))
       \<and> (cmp_PL_PL hom qa a ga b = Mismatch \<longleftrightarrow>
            \<not> (\<exists>k<3. (\<forall>m<3. qa ! (a + k) \<le>s qa ! (a + m)) \<and> (\<forall>m<3. ga ! (b + k) \<le>s ga ! (b + m))))
       \<and> (DSG_PL qa a = DSG_PL ga b \<longrightarrow> is_Match (cmp_PL_PL hom qa a ga b))
       \<and> (slower_dsg qa a = slower_dsg ga b \<longrightarrow> is_Match (cmp_PL_PL hom qa a ga b))
       \<and> compare_pair False False hom qa a ga b = cmp_PL_PL hom qa a ga b
       \<and> row_PL_PL hom qa a (MIN_PL qa a) (DSG_PL qa a) ga b = cmp_PL_PL hom qa a ga b"
proof -
  define E where "E \<longleftrightarrow> (\<exists>k<3. qa ! (a + k) = MIN_PL qa a \<and> ga ! (b + k) = MIN_PL ga b)"
  have e: "(\<exists>k<3. (\<forall>m<3. qa ! (a + k) \<le>s qa ! (a + m)) \<and> (\<forall>m<3. ga ! (b + k) \<le>s ga ! (b + m)))
           \<longleftrightarrow> E"
    unfolding E_def using MIN_PL_iff [of _ qa a] MIN_PL_iff [of _ ga b] by blast
  have c: "cmp_PL_PL hom qa a ga b = (if E then Match (DSG_PL qa a) else Mismatch)"
    unfolding E_def using assms by (auto simp: cmp_PL_PL_valid)
  have d1: "DSG_PL qa a = DSG_PL ga b \<longrightarrow> E"
    unfolding E_def using common_min_DSG_PL by blast
  have d2: "slower_dsg qa a = slower_dsg ga b \<longrightarrow> E"
    unfolding E_def using common_min_slower_dsg by blast
  have r: "row_PL_PL hom qa a (MIN_PL qa a) (DSG_PL qa a) ga b = cmp_PL_PL hom qa a ga b"
    using assms(1,2) by (rule row_PL_PL_eq)
  show ?thesis
    unfolding e r using d1 d2 by (simp add: compare_pair_def c)
qed

text \<open>A Match of two triples whose dosages differ, whichever way ties are broken.\<close>

theorem likelihood_vs_likelihood_match_iff_witness:
  "HAS_PL [0, 0, 5] 0 \<and> HAS_PL [5, 0, 0] 0
   \<and> is_Match (cmp_PL_PL False [0, 0, 5] 0 [5, 0, 0] 0)
   \<and> slower_dsg [0, 0, 5] 0 = 0 \<and> slower_dsg [5, 0, 0] 0 = 1
   \<and> DSG_PL [0, 0, 5] 0 = 1 \<and> DSG_PL [5, 0, 0] 0 = 2"
proof -
  have h1: "HAS_PL [0, 0, 5] 0" by (simp add: eval_defs)
  have h2: "HAS_PL [5, 0, 0] 0" by (simp add: eval_defs)
  have h3: "\<not> (False \<and> [5, 0, 0] ! (0 + 1) = MIN_PL [5, 0, 0] 0)" by simp
  show ?thesis
    using likelihood_vs_likelihood_match_iff [OF h1 h2 h3] h1 h2
    by (simp add: all_less_3 ex_less_3 eval_defs)
qed

text \<open>
  The claim's last part fails: no two valid triples with equal dosage are a Mismatch,
  for the first index of the minimum as for the last.
\<close>

theorem likelihood_vs_likelihood_never_stricter_counterexample:
  "\<not> (\<exists>qa a ga b. HAS_PL qa a \<and> HAS_PL ga b \<and> slower_dsg qa a = slower_dsg ga b
          \<and> cmp_PL_PL False qa a ga b = Mismatch)
   \<and> \<not> (\<exists>qa a ga b. HAS_PL qa a \<and> HAS_PL ga b \<and> DSG_PL qa a = DSG_PL ga b
          \<and> cmp_PL_PL False qa a ga b = Mismatch)"
  using same_dosage_not_Mismatch by blast

section \<open>Facts about the HWE scorer\<close>

lemma hwe_arg_Some:
  "hwe_arg (Some af) =
     [(max af min_af)\<^sup>2,
      2 * max min_af (min af (1 - min_af)) * max min_af (min (1 - af) (1 - min_af)),
      (max (1 - af) min_af)\<^sup>2]"
proof -
  consider "af < 1 / 1000" | "af = 1 / 1000" | "1 / 1000 < af \<and> af < 999 / 1000"
    | "af = 999 / 1000" | "999 / 1000 < af"
    by linarith
  then show ?thesis
  proof cases
    case 1
    then show ?thesis
      by (simp add: hwe_arg_def af_gt_def af_lt_def min_af_def max_def min_def power2_eq_square)
  next
    case 2
    show ?thesis
      unfolding 2
      by (simp add: hwe_arg_def af_gt_def af_lt_def min_af_def max_def min_def power2_eq_square)
  next
    case 3
    then show ?thesis
      by (simp add: hwe_arg_def af_gt_def af_lt_def min_af_def max_def min_def power2_eq_square)
  next
    case 4
    show ?thesis
      unfolding 4
      by (simp add: hwe_arg_def af_gt_def af_lt_def min_af_def max_def min_def power2_eq_square)
  next
    case 5
    then show ?thesis
      by (simp add: hwe_arg_def af_gt_def af_lt_def min_af_def max_def min_def power2_eq_square)
  qed
qed

lemma hwe_arg_pos: "list_all (\<lambda>x. 0 < x) (hwe_arg af)"
  by (cases af) (auto simp: hwe_arg_def af_gt_def af_lt_def min_af_def)

text \<open>
  C5.  For every allele frequency \<open>af\<close> (in particular for \<open>0 \<le> af \<le> 1\<close>) the three
  scores are \<open>-log(max(af,e)^2)\<close>, \<open>-log(2*clamp(af,e,1-e)*clamp(1-af,e,1-e))\<close> and
  \<open>-log(max(1-af,e)^2)\<close> with \<open>e = 1/1000\<close>; every argument of \<open>log\<close> is positive; and
  at \<open>af = 1/2\<close> the score of the heterozygous class is below the two others, which
  are equal.
\<close>

theorem hwe_score_formula:
  "hwe_score (Some af) =
     [- ln ((max af min_af)\<^sup>2),
      - ln (2 * max min_af (min af (1 - min_af)) * max min_af (min (1 - af) (1 - min_af))),
      - ln ((max (1 - af) min_af)\<^sup>2)]
   \<and> min_af = 1 / 1000
   \<and> list_all (\<lambda>x. 0 < x) (hwe_arg (Some af))
   \<and> hwe_score (Some (1 / 2)) ! 1 < hwe_score (Some (1 / 2)) ! 0
   \<and> hwe_score (Some (1 / 2)) ! 0 = hwe_score (Some (1 / 2)) ! 2"
proof -
  have a: "hwe_score (Some af) =
     [- ln ((max af min_af)\<^sup>2),
      - ln (2 * max min_af (min af (1 - min_af)) * max min_af (min (1 - af) (1 - min_af))),
      - ln ((max (1 - af) min_af)\<^sup>2)]"
    unfolding hwe_score_def hwe_arg_Some by simp
  have h: "hwe_score (Some (1 / 2)) = [- ln (1 / 4), - ln (1 / 2), - ln (1 / 4)]"
    unfolding hwe_score_def hwe_arg_Some by (simp add: min_af_def power2_eq_square)
  have l: "ln (1 / 4 :: real) < ln (1 / 2)"
    by (subst ln_less_cancel_iff) simp_all
  show ?thesis
    using a hwe_arg_pos [of "Some af"] l unfolding h by (simp add: min_af_def)
qed

section \<open>Facts about \<open>process_line\<close>\<close>

text \<open>
  C8.  A site whose query values are absent or not two (hard calls) or three
  (likelihoods) per sample, or whose values of the \<open>-g\<close> file are, is passed over:
  \<open>process_line\<close> returns without an error, and the counters of every pair, the HWE
  scores, the number of compared sites and the records of the sorter are as before.
\<close>

theorem bad_shape_skipped:
  assumes "qry_ret site \<le> 0
           \<or> qry_ret site \<noteq> int (per_sample (qry_use_GT st) * qry_nsamples st)
           \<or> (gt_hdr st \<and> (gt_ret site \<le> 0
                \<or> gt_ret site \<noteq> int (per_sample (gt_use_GT st) * gt_nsamples st)))"
  shows "\<exists>st'. process_line st site = Inr st'
           \<and> ndiff st' = ndiff st \<and> ncnt st' = ncnt st \<and> hwe_prob st' = hwe_prob st
           \<and> ncmp st' = ncmp st \<and> es st' = es st \<and> kbs_diff st' = kbs_diff st"
  using assms
  by (auto simp: process_line_def fetch_qry_def fetch_gt_def split: prod.splits option.splits)

theorem bad_shape_skipped_witness:
  "\<exists>st'. process_line args_pair (line0\<lparr>qry_ret := 3, qry_vals := [2, 2, 2]\<rparr>) = Inr st'
      \<and> ndiff st' = ndiff args_pair \<and> ncnt st' = ncnt args_pair
      \<and> hwe_prob st' = hwe_prob args_pair"
proof -
  have "qry_ret (line0\<lparr>qry_ret := 3, qry_vals := [2, 2, 2]\<rparr>)
          \<noteq> int (per_sample (qry_use_GT args_pair) * qry_nsamples args_pair)"
    by (simp add: args_pair_def args0_def line0_def per_sample_def)
  then show ?thesis
    using bad_shape_skipped [of "line0\<lparr>qry_ret := 3, qry_vals := [2, 2, 2]\<rparr>" args_pair] by blast
qed

section \<open>Facts about the drain of the distinctive sites\<close>

lemma scan_fold_dbg:
  "snd (snd (fold (\<lambda>i (b, ndiff_new, ndiff_dbg).
             if kbs_exists b i then (b, ndiff_new, ndiff_dbg + 1)
             else (kbs_insert b i, ndiff_new + 1, ndiff_dbg + 1)) xs (b0, n, d))) = d + length xs"
  by (induction xs arbitrary: b0 n d) auto

lemma scan_bits_dbg: "snd (snd (scan_bits dat blk)) = length (kbs_elems dat)"
  unfolding scan_bits_def by (simp add: scan_fold_dbg)

lemma map_sum_Inl_iff: "(\<exists>e. map_sum id f x = Inl e) \<longleftrightarrow> (\<exists>e. x = Inl e)"
  by (cases x) auto

lemma drain_Cons:
  "drain m (r # rs) (kbs_blk, ndiff_tot, iblock) =
     (let blk = fst (scan_bits (kbs_dat r) kbs_blk);
          ndiff_new = fst (snd (scan_bits (kbs_dat r) kbs_blk));
          ndiff_dbg = length (kbs_elems (kbs_dat r))
      in if int ndiff_dbg \<noteq> sint (dat_ndiff r)
         then Inl (Corrupted_data ndiff_dbg (sint (dat_ndiff r)))
         else map_sum id (Cons (if ndiff_new = 0 then None
                else Some (DS (sint (dat_rid r)) (sint (dat_pos r + 1)) (ndiff_tot + ndiff_new) iblock)))
              (drain m rs (if ndiff_new = 0 then (blk, ndiff_tot, iblock)
                           else if ndiff_tot + ndiff_new < m then (blk, ndiff_tot + ndiff_new, iblock)
                           else (kbs_clear blk, 0, iblock + 1))))"
  using scan_bits_dbg [of "kbs_dat r" kbs_blk]
  by (cases "scan_bits (kbs_dat r) kbs_blk") (simp add: Let_def)

declare drain.simps(2) [simp del]

lemma drain_Inl_iff:
  "(\<exists>e. drain m rs s = Inl e)
   \<longleftrightarrow> (\<exists>r\<in>set rs. int (length (kbs_elems (kbs_dat r))) \<noteq> sint (dat_ndiff r))"
proof (induction rs arbitrary: s)
  case Nil
  show ?case by simp
next
  case (Cons r rs)
  obtain kbs_blk ndiff_tot iblock where s: "s = (kbs_blk, ndiff_tot, iblock)"
    by (cases s) auto
  show ?case
    unfolding s drain_Cons by (simp add: Let_def map_sum_Inl_iff Cons.IH)
qed


lemma drain_stops:
  "\<forall>r'\<in>set pre. int (length (kbs_elems (kbs_dat r'))) = sint (dat_ndiff r')
   \<Longrightarrow> int (length (kbs_elems (kbs_dat r))) \<noteq> sint (dat_ndiff r)
   \<Longrightarrow> drain m (pre @ r # post) s
       = Inl (Corrupted_data (length (kbs_elems (kbs_dat r))) (sint (dat_ndiff r)))"
proof (induction pre arbitrary: s)
  case Nil
  obtain kbs_blk ndiff_tot iblock where s: "s = (kbs_blk, ndiff_tot, iblock)"
    by (cases s) auto
  show ?case
    using Nil.prems unfolding s by (simp add: drain_Cons)
next
  case (Cons r' pre)
  obtain kbs_blk ndiff_tot iblock where s: "s = (kbs_blk, ndiff_tot, iblock)"
    by (cases s) auto
  have ih: "drain m (pre @ r # post) s'
       = Inl (Corrupted_data (length (kbs_elems (kbs_dat r))) (sint (dat_ndiff r)))" for s'
    using Cons.IH Cons.prems by simp
  show ?case
    using Cons.prems unfolding s by (simp add: drain_Cons Let_def ih)
qed

text \<open>
  C9.  The drain ends with the error \<open>Corrupted_data\<close> exactly when some record's
  number of set bits differs from the \<open>ndiff\<close> stored in it; it ends at the first
  such record, whatever follows it.
\<close>

theorem corrupted_record_is_fatal:
  "((\<exists>e. report_distinctive_sites st rs = Inl e)
     \<longleftrightarrow> (\<exists>r\<in>set rs. int (length (kbs_elems (kbs_dat r))) \<noteq> sint (dat_ndiff r)))
   \<and> ((\<forall>r'\<in>set pre. int (length (kbs_elems (kbs_dat r'))) = sint (dat_ndiff r'))
        \<and> int (length (kbs_elems (kbs_dat r))) \<noteq> sint (dat_ndiff r)
      \<longrightarrow> report_distinctive_sites st (pre @ r # post)
          = Inl (Corrupted_data (length (kbs_elems (kbs_dat r))) (sint (dat_ndiff r))))"
  unfolding report_distinctive_sites_def drain_all_def
  by (simp add: map_sum_Inl_iff drain_Inl_iff drain_stops)

theorem corrupted_record_is_fatal_witness:
  "report_distinctive_sites args_ds ([] @ Diff_site 2 0 0 0 [True, False] # [])
     = Inl (Corrupted_data 1 2)"
  using corrupted_record_is_fatal [of args_ds "[]" "[]" "Diff_site 2 0 0 0 [True, False]" "[]"]
  by (simp add: kbs_elems_def upt_conv_Cons)

section \<open>Facts about the sort keys of the report\<close>












section \<open>Facts about the pair index\<close>

lemma tri_Suc: "Suc n * (Suc n - 1) div 2 = n * (n - 1) div 2 + n"
proof -
  have "even (n * (n - 1))" by (cases n) simp_all
  then obtain k where k: "n * (n - 1) = 2 * k" by (rule evenE)
  have "Suc n * n = n * (n - 1) + 2 * n" by (cases n) (auto simp: algebra_simps)
  then show ?thesis using k by simp
qed

lemma tri_Suc': "Suc n * n div 2 = n * (n - Suc 0) div 2 + n"
  using tri_Suc [of n] by simp

lemma map_plus_upt: "map ((+) c) [0..<n] = [c..<c + n]"
  by (induction n) simp_all

lemma inner_trace:
  "fold (\<lambda>j (idx, s). (idx + 1, s @ [((i, j), idx)])) [0..<m] (idx0, s0)
     = (idx0 + m, s0 @ map (\<lambda>j. ((i, j), idx0 + j)) [0..<m])"
  by (induction m) simp_all

lemma outer_trace:
  "matrix_loops True n ngts (\<lambda>i s. if i \<in> set skipped then None else Some ())
       (\<lambda>h i j idx s. s @ [((i, j), idx)]) []
     = (n * (n - 1) div 2,
        concat (map (\<lambda>i. if i \<in> set skipped then []
                          else map (\<lambda>j. ((i, j), i * (i - 1) div 2 + j)) [0..<i]) [0..<n]))"
  unfolding matrix_loops_def
proof (induction n)
  case 0
  show ?case by simp
next
  case (Suc n)
  show ?case
    unfolding upt_Suc_append [OF le0] fold_append comp_apply Suc.IH
    using inner_trace [of n n] by (simp add: tri_Suc' del: mult_Suc)
qed

lemma visited_cross:
  "visited True n ngts skipped =
     concat (map (\<lambda>i. if i \<in> set skipped then []
                       else map (\<lambda>j. ((i, j), i * (i - 1) div 2 + j)) [0..<i]) [0..<n])"
  by (simp add: visited_def outer_trace)

lemma visited_indices: "map snd (visited True n ngts []) = [0..<n * (n - 1) div 2]"
proof (induction n)
  case 0
  show ?case by (simp add: visited_cross)
next
  case (Suc n)
  have "map snd (visited True (Suc n) ngts [])
          = map snd (visited True n ngts []) @ map (\<lambda>j. n * (n - 1) div 2 + j) [0..<n]"
    by (simp add: visited_cross comp_def)
  also have "\<dots> = [0..<n * (n - 1) div 2] @ [n * (n - 1) div 2..<n * (n - 1) div 2 + n]"
    unfolding Suc.IH by (simp add: map_plus_upt)
  also have "\<dots> = [0..<Suc n * (Suc n - 1) div 2]"
    unfolding tri_Suc using upt_add_eq_append [of 0 "n * (n - 1) div 2" n] by simp
  finally show ?case .
qed

lemma in_concat_map: "i \<in> set xs \<Longrightarrow> e \<in> set (F i) \<Longrightarrow> e \<in> set (concat (map F xs))"
  by auto

lemma visited_pairs: "set (map fst (visited True n ngts [])) = {(i, j). j < i \<and> i < n}"
proof -
  have "(a, b) \<in> set (map fst (visited True n ngts [])) \<longleftrightarrow> b < a \<and> a < n" for a b
  proof
    assume "(a, b) \<in> set (map fst (visited True n ngts []))"
    then show "b < a \<and> a < n" by (auto simp: visited_cross)
  next
    assume "b < a \<and> a < n"
    then have "((a, b), a * (a - 1) div 2 + b) \<in> set (visited True n ngts [])"
      unfolding visited_cross by (intro in_concat_map [of a]) simp_all
    then show "(a, b) \<in> set (map fst (visited True n ngts []))"
      by (metis fst_conv image_eqI set_map)
  qed
  then show ?thesis by auto
qed

lemma visited_entry:
  "e \<in> set (visited True n ngts skipped) \<Longrightarrow> snd e = fst (fst e) * (fst (fst e) - 1) div 2 + snd (fst e)"
  by (auto simp: visited_cross split: if_splits)

lemma int_div2_nat: "int_div2 (int m) = int (m div 2)"
  by (simp add: int_div2_def zdiv_int)

lemma sint_of_nat_int32: "m < 2 ^ 31 \<Longrightarrow> sint (of_nat m :: int32) = int m"
  by (simp add: signed_of_nat signed_take_bit_int_eq_self)

lemma unat_of_int_uint32: "m < 2 ^ 32 \<Longrightarrow> unat (word_of_int (int m) :: uint32) = m"
  by (simp add: unsigned_of_nat take_bit_nat_eq_self)

text \<open>
  Line 365 in cross-check mode, for sample counts whose product fits an \<open>int\<close>.
\<close>

lemma init_npairs_cross:
  assumes "cross_check st" and "npairs st = 0" and "nqry_smpl st = n" and "n * (n + 1) < 2 ^ 31"
  shows "init_npairs st = n * (n + 1) div 2"
proof -
  have w: "(of_nat n :: int32) * (of_nat n + 1) = of_nat (n * (n + 1))"
    by (simp add: algebra_simps)
  have s: "sint (of_nat (n * (n + 1)) :: int32) = int (n * (n + 1))"
    using assms(4) by (rule sint_of_nat_int32)
  have h: "n * (n + 1) div 2 < 2 ^ 32" using assms(4) by simp
  have u: "unat (word_of_int (int (n * (n + 1) div 2)) :: uint32) = n * (n + 1) div 2"
    using h by (rule unat_of_int_uint32)
  have "init_npairs st
          = unat (word_of_int (int_div2 (sint ((of_nat n :: int32) * (of_nat n + 1)))) :: uint32)"
    using assms(1-3) by (simp add: init_npairs_def)
  then show ?thesis
    unfolding w s int_div2_nat u .
qed

text \<open>
  C3, as amended.  For a number \<open>n\<close> of samples with \<open>n*(n+1)\<close> below \<open>2^31\<close>, so that
  the \<open>int\<close> arithmetic of line 365 and of the indices does not overflow: the
  cross-check loops visit the pairs \<open>(i, j)\<close> with \<open>j < i < n\<close>, row by row, and count the
  pair \<open>(i, j)\<close> at the index \<open>i*(i-1)/2 + j\<close>, whichever rows are skipped; the indices of
  the \<open>n*(n-1)/2\<close> pairs are \<open>0, 1, ...\<close> in the order of the visit, so the index is a
  bijection between the pairs and the indices below \<open>n*(n-1)/2\<close>; and each of these is
  the index of a counter that \<open>init_data\<close> allocates.
\<close>

theorem cross_check_triangular_index:
  assumes "n * (n + 1) < 2 ^ 31"
  shows "visited True n ngts skipped =
         concat (map (\<lambda>i. if i \<in> set skipped then []
                           else map (\<lambda>j. ((i, j), i * (i - 1) div 2 + j)) [0..<i]) [0..<n])
   \<and> set (map fst (visited True n ngts [])) = {(i, j). j < i \<and> i < n}
   \<and> map snd (visited True n ngts []) = [0..<n * (n - 1) div 2]
   \<and> bij_betw (\<lambda>(i, j). i * (i - 1) div 2 + j) (set (map fst (visited True n ngts [])))
        {0..<n * (n - 1) div 2}
   \<and> (cross_check st \<and> npairs st = 0 \<and> nqry_smpl st = n
        \<longrightarrow> n * (n - 1) div 2 \<le> init_npairs st
            \<and> length (ndiff (init_arrays st)) = init_npairs st
            \<and> length (ncnt (init_arrays st)) = init_npairs st)"
proof -
  let ?f = "\<lambda>(i, j). i * (i - 1) div 2 + j"
  let ?v = "visited True n ngts []"
  have m: "map ?f (map fst ?v) = map snd ?v"
    using visited_entry [of _ n ngts "[]"] by (auto simp: case_prod_beta)
  have "distinct (map ?f (map fst ?v))"
    unfolding m visited_indices by simp
  then have inj: "inj_on ?f (set (map fst ?v))"
    by (simp only: distinct_map)
  have "?f ` set (map fst ?v) = set (map ?f (map fst ?v))" by (simp only: set_map)
  also have "\<dots> = {0..<n * (n - 1) div 2}"
    unfolding m visited_indices by simp
  finally have img: "?f ` set (map fst ?v) = {0..<n * (n - 1) div 2}" .
  have b: "bij_betw ?f (set (map fst ?v)) {0..<n * (n - 1) div 2}"
    using inj img by (simp only: bij_betw_def)
  have le: "n * (n - 1) div 2 \<le> n * (n + 1) div 2"
    by (intro div_le_mono mult_le_mono) simp_all
  have a: "cross_check st \<and> npairs st = 0 \<and> nqry_smpl st = n
        \<longrightarrow> n * (n - 1) div 2 \<le> init_npairs st
            \<and> length (ndiff (init_arrays st)) = init_npairs st
            \<and> length (ncnt (init_arrays st)) = init_npairs st"
    using init_npairs_cross [of st n] assms le by (simp add: init_arrays_def)
  show ?thesis
    by (intro conjI visited_cross visited_pairs visited_indices b a)
qed

text \<open>Four samples: the six pairs and their indices, all below the number of counters.\<close>

theorem cross_check_triangular_index_witness:
  "(4::nat) * (4 + 1) < 2 ^ 31
   \<and> cross_check args_cross \<and> npairs args_cross = 0 \<and> nqry_smpl args_cross = 4
   \<and> visited True 4 4 []
       = [((1, 0), 0), ((2, 0), 1), ((2, 1), 2), ((3, 0), 3), ((3, 1), 4), ((3, 2), 5)]
   \<and> map snd (visited True 4 4 []) = [0..<4 * (4 - 1) div 2]
   \<and> 4 * (4 - 1) div 2 \<le> init_npairs args_cross"
proof -
  have b: "(4::nat) * (4 + 1) < 2 ^ 31" by simp
  have h: "cross_check args_cross \<and> npairs args_cross = 0 \<and> nqry_smpl args_cross = 4"
    by (simp add: args_cross_def args0_def)
  have e: "visited True 4 4 []
       = [((1, 0), 0), ((2, 0), 1), ((2, 1), 2), ((3, 0), 3), ((3, 1), 4), ((3, 2), 5)]"
    by (simp add: visited_def matrix_loops_def upt_conv_Cons)
  have t: "4 * (4 - 1) div 2 \<le> init_npairs args_cross"
    using cross_check_triangular_index [OF b, of 4 "[]" args_cross] h by blast
  have v: "map snd (visited True 4 4 []) = [0..<4 * (4 - 1) div 2]"
    using cross_check_triangular_index [OF b, of 4 "[]" args_cross] by blast
  show ?thesis
    using b h e t v by blast
qed

text \<open>
  Four samples: the six pairs get the indices 0 to 5 and \<open>init_data\<close> sets the number of
  pairs, which is the number of counters, to 10: the index 6 is below the number of
  counters and is the index of no pair.
\<close>

theorem cross_check_allocation_counterexample:
  "map fst (visited True 4 4 []) = [(1, 0), (2, 0), (2, 1), (3, 0), (3, 1), (3, 2)]
   \<and> map snd (visited True 4 4 []) = [0, 1, 2, 3, 4, 5]
   \<and> init_npairs args_cross = 10
   \<and> length (ncnt (init_arrays args_cross)) = 10
   \<and> 6 < init_npairs args_cross \<and> 6 \<notin> set (map snd (visited True 4 4 []))"
proof -
  have v: "visited True 4 4 []
       = [((1, 0), 0), ((2, 0), 1), ((2, 1), 2), ((3, 0), 3), ((3, 1), 4), ((3, 2), 5)]"
    by (simp add: visited_def matrix_loops_def upt_conv_Cons)
  have h: "cross_check args_cross" "npairs args_cross = 0" "nqry_smpl args_cross = 4"
    by (simp_all add: args_cross_def args0_def)
  have n: "init_npairs args_cross = 10"
    using init_npairs_cross [OF h] by simp
  show ?thesis
    unfolding v n by (simp add: init_arrays_def n)
qed

section \<open>Facts about the record of a site\<close>

lemma pair_result_counters:
  "pair_result (st\<lparr>ndiff := nd, ncnt := nc, hwe_prob := hw, kbs_diff := kb\<rparr>) nqry1 ngt1 ps i
     = pair_result st nqry1 ngt1 ps i"
  by (simp add: pair_result_def gt_view_def)

lemma map_mark:
  "m < N \<Longrightarrow> (map (\<lambda>i. i < m \<and> P i) [0..<N])[m := True] = map (\<lambda>i. i < Suc m \<and> (i = m \<or> P i)) [0..<N]"
  by (rule nth_equalityI) (auto simp: nth_list_update less_Suc_eq)

lemma pairs_loop_record:
  assumes "m \<le> N"
  shows "\<exists>nd nc hw.
     fold (pairs_body hwe nqry1 ngt1 ps) [0..<m] (0, st\<lparr>kbs_diff := Some (replicate N False)\<rparr>)
       = (length (filter (\<lambda>i. pair_result st nqry1 ngt1 ps i = Mismatch) [0..<m]),
          st\<lparr>ndiff := nd, ncnt := nc, hwe_prob := hw,
             kbs_diff := Some (map (\<lambda>i. i < m \<and> pair_result st nqry1 ngt1 ps i = Mismatch) [0..<N])\<rparr>)"
  using assms
proof (induction m)
  case 0
  show ?case
    by (rule exI [of _ "ndiff st"], rule exI [of _ "ncnt st"], rule exI [of _ "hwe_prob st"])
       (simp add: map_replicate_const)
next
  case (Suc m)
  then obtain nd nc hw where f:
    "fold (pairs_body hwe nqry1 ngt1 ps) [0..<m] (0, st\<lparr>kbs_diff := Some (replicate N False)\<rparr>)
       = (length (filter (\<lambda>i. pair_result st nqry1 ngt1 ps i = Mismatch) [0..<m]),
          st\<lparr>ndiff := nd, ncnt := nc, hwe_prob := hw,
             kbs_diff := Some (map (\<lambda>i. i < m \<and> pair_result st nqry1 ngt1 ps i = Mismatch) [0..<N])\<rparr>)"
    by auto
  have mN: "m < N" using Suc.prems by simp
  have step: "fold (pairs_body hwe nqry1 ngt1 ps) [0..<Suc m] s0
                = pairs_body hwe nqry1 ngt1 ps m (fold (pairs_body hwe nqry1 ngt1 ps) [0..<m] s0)"
    for s0 by simp
  show ?case
  proof (cases "pair_result st nqry1 ngt1 ps m")
    case NoData
    have e: "map (\<lambda>i. i < Suc m \<and> pair_result st nqry1 ngt1 ps i = Mismatch) [0..<N]
               = map (\<lambda>i. i < m \<and> pair_result st nqry1 ngt1 ps i = Mismatch) [0..<N]"
      using NoData by (auto simp: less_Suc_eq)
    show ?thesis
      unfolding step f e
      by (rule exI [of _ nd], rule exI [of _ nc], rule exI [of _ hw])
         (simp add: pairs_body_def pair_result_counters update_def NoData)
  next
    case Mismatch
    have e: "map (\<lambda>i. i < Suc m \<and> (i = m \<or> pair_result st nqry1 ngt1 ps i = Mismatch)) [0..<N]
               = map (\<lambda>i. i < Suc m \<and> pair_result st nqry1 ngt1 ps i = Mismatch) [0..<N]"
      using Mismatch by auto
    show ?thesis
      unfolding step f
      by (rule exI [of _ "nd[m := nd ! m + 1]"], rule exI [of _ "nc[m := nc ! m + 1]"],
          rule exI [of _ hw])
         (simp add: pairs_body_def pair_result_counters update_def kbs_insert_def
                    map_mark [OF mN] e Mismatch)
  next
    case (Match d)
    have e: "map (\<lambda>i. i < Suc m \<and> pair_result st nqry1 ngt1 ps i = Mismatch) [0..<N]
               = map (\<lambda>i. i < m \<and> pair_result st nqry1 ngt1 ps i = Mismatch) [0..<N]"
      using Match by (auto simp: less_Suc_eq)
    show ?thesis
      unfolding step f e
      by (rule exI [of _ nd], rule exI [of _ "nc[m := nc ! m + 1]"],
          rule exI [of _ "if calc_hwe_prob st then hw[m := hw ! m + hwe ! d] else hw"])
         (simp add: pairs_body_def pair_result_counters update_def Match)
  qed
qed

lemma kbs_elems_map: "kbs_elems (map P [0..<N]) = filter P [0..<N]"
  unfolding kbs_elems_def by (rule filter_cong) simp_all

text \<open>
  The record of a site: with the bitset of \<open>diff_sites_init\<close> in place, \<open>process_pairs\<close>
  pushes one record when some pair is a Mismatch at the site and none otherwise; its
  bit \<open>i\<close> is set exactly when the pair \<open>i\<close> is a Mismatch, and its \<open>ndiff\<close> is their number.
  Apart from the sorter, the loops write the counters, the scores and the bitset only.
\<close>

lemma process_pairs_state:
  assumes "kbs_diff st = Some bs" and "length bs = npairs st"
  shows "\<exists>nd nc hw. process_pairs hwe nqry1 ngt1 ps site st =
           st\<lparr>ndiff := nd, ncnt := nc, hwe_prob := hw,
              kbs_diff := Some (map (\<lambda>i. pair_result st nqry1 ngt1 ps i = Mismatch) [0..<npairs st]),
              es := es st @
                (if \<exists>i<npairs st. pair_result st nqry1 ngt1 ps i = Mismatch
                 then [Diff_site
                         (of_nat (length (filter (\<lambda>i. pair_result st nqry1 ngt1 ps i = Mismatch)
                                            [0..<npairs st])))
                         (rec_rid site) (rec_pos site) (rand_val site)
                         (map (\<lambda>i. pair_result st nqry1 ngt1 ps i = Mismatch) [0..<npairs st])]
                 else [])\<rparr>"
proof -
  let ?N = "npairs st"
  let ?P = "\<lambda>i. pair_result st nqry1 ngt1 ps i = Mismatch"
  have r: "diff_sites_reset st = st\<lparr>kbs_diff := Some (replicate ?N False)\<rparr>"
    using assms by (simp add: diff_sites_reset_def kbs_clear_def)
  obtain nd nc hw where f:
    "fold (pairs_body hwe nqry1 ngt1 ps) [0..<?N] (0, st\<lparr>kbs_diff := Some (replicate ?N False)\<rparr>)
       = (length (filter ?P [0..<?N]),
          st\<lparr>ndiff := nd, ncnt := nc, hwe_prob := hw,
             kbs_diff := Some (map (\<lambda>i. i < ?N \<and> ?P i) [0..<?N])\<rparr>)"
    using pairs_loop_record [of ?N ?N hwe nqry1 ngt1 ps st] by auto
  have m: "map (\<lambda>i. i < ?N \<and> ?P i) [0..<?N] = map ?P [0..<?N]" by simp
  have n: "length (filter ?P [0..<?N]) \<noteq> 0 \<longleftrightarrow> (\<exists>i<?N. ?P i)"
    by (auto simp: filter_empty_conv)
  show ?thesis
  proof (cases "\<exists>i<?N. ?P i")
    case True
    have "process_pairs hwe nqry1 ngt1 ps site st =
          diff_sites_push (length (filter ?P [0..<?N])) site
            (st\<lparr>ndiff := nd, ncnt := nc, hwe_prob := hw, kbs_diff := Some (map ?P [0..<?N])\<rparr>)"
      using n True by (simp add: process_pairs_def r assms(1) f [unfolded m] Let_def)
    also have "\<dots> = st\<lparr>ndiff := nd, ncnt := nc, hwe_prob := hw,
              kbs_diff := Some (map ?P [0..<?N]),
              es := es st @ [Diff_site (of_nat (length (filter ?P [0..<?N])))
                               (rec_rid site) (rec_pos site) (rand_val site) (map ?P [0..<?N])]\<rparr>"
      by (simp add: diff_sites_push_def)
    finally show ?thesis
      unfolding if_P [OF True]
      by (rule_tac x = nd in exI, rule_tac x = nc in exI, rule_tac x = hw in exI)
  next
    case False
    have "process_pairs hwe nqry1 ngt1 ps site st =
            st\<lparr>ndiff := nd, ncnt := nc, hwe_prob := hw, kbs_diff := Some (map ?P [0..<?N])\<rparr>"
      using n False by (simp add: process_pairs_def r assms(1) f [unfolded m] Let_def)
    also have "\<dots> = st\<lparr>ndiff := nd, ncnt := nc, hwe_prob := hw,
              kbs_diff := Some (map ?P [0..<?N]), es := es st @ []\<rparr>"
      by simp
    finally show ?thesis
      unfolding if_not_P [OF False]
      by (rule_tac x = nd in exI, rule_tac x = nc in exI, rule_tac x = hw in exI)
  qed
qed

section \<open>Facts about the records of a run\<close>

lemma same_setup_refl: "same_setup st st"
  by (simp add: same_setup_def)

lemma same_setup_trans: "same_setup a b \<Longrightarrow> same_setup b c \<Longrightarrow> same_setup a c"
  by (simp add: same_setup_def)

lemma discordant_at_setup: "same_setup st st' \<Longrightarrow> discordant_at st' site i = discordant_at st site i"
  by (simp add: same_setup_def discordant_at_def compared_state_def fetch_qry_def fetch_gt_def
        pair_result_def gt_view_def split: option.splits)

text \<open>
  One record of the stream in a run over the explicit pairs: the setup stays, the bitset
  stays in place, and the sorter is handed one record, which holds the pairs that are
  discordant at the record of the stream, when there is such a pair.
\<close>

lemma process_line_pairs:
  assumes ps: "pairs st = Some ps" and kb: "kbs_diff st = Some bs" "length bs = npairs st"
    and run: "process_line st site = Inr st'" and seen: "\<not> (gt_hdr st \<and> sr_ret site \<noteq> 2)"
  shows "same_setup st st' \<and> (\<exists>bs'. kbs_diff st' = Some bs' \<and> length bs' = npairs st)
     \<and> es st' = es st @
         (if \<exists>i<npairs st. discordant_at st site i
          then [Diff_site (of_nat (length (filter (discordant_at st site) [0..<npairs st])))
                  (rec_rid site) (rec_pos site) (rand_val site)
                  (map (discordant_at st site) [0..<npairs st])]
          else [])"
proof -
  obtain st1 r1 where f1: "fetch_qry st site = (st1, r1)"
    by (cases "fetch_qry st site") auto
  have q1: "st1 = st\<lparr>qry_arr := qry_vals site\<rparr>"
    using f1 by (simp add: fetch_qry_def)
  have skip: ?thesis
    if c: "compared_state st site = None"
      and s: "st' = st\<lparr>qry_arr := qry_vals site\<rparr>
              \<or> st' = st\<lparr>qry_arr := qry_vals site, gt_arr := gt_vals site\<rparr>"
  proof -
    have "\<not> discordant_at st site i" for i
      using c by (simp add: discordant_at_def)
    then show ?thesis
      using kb s by (auto simp: same_setup_def)
  qed
  show ?thesis
  proof (cases r1)
    case None
    have c: "compared_state st site = None"
      using f1 None seen by (simp add: compared_state_def)
    have "st' = st1"
      using run f1 None by (simp add: process_line_def)
    then show ?thesis using skip [OF c] q1 by simp
  next
    case (Some nqry1)
    obtain st2 r2 where f2: "fetch_gt st1 site nqry1 = (st2, r2)"
      by (cases "fetch_gt st1 site nqry1") auto
    have q2: "st2 = (if gt_hdr st then st\<lparr>qry_arr := qry_vals site, gt_arr := gt_vals site\<rparr>
                     else st\<lparr>qry_arr := qry_vals site\<rparr>)"
      using f2 unfolding q1 by (simp add: fetch_gt_def split: if_splits)
    show ?thesis
    proof (cases r2)
      case None
      have c: "compared_state st site = None"
        using f1 Some f2 None seen by (simp add: compared_state_def)
      have "st' = st2"
        using run f1 Some f2 None by (simp add: process_line_def)
      then show ?thesis using skip [OF c] q2 by (simp split: if_splits)
    next
      case r2: (Some ngt1)
      have c: "compared_state st site = Some (st2, nqry1, ngt1)"
        using f1 Some f2 r2 seen by (simp add: compared_state_def)
      define st3 where "st3 = st2\<lparr>ncmp := ncmp st2 + 1\<rparr>"
      define hwe where
        "hwe = (if calc_hwe_prob st3 then hwe_score (calc_af (the (calc_ac site))) else [])"
      have fl: "pairs st3 = Some ps" "kbs_diff st3 = Some bs" "npairs st3 = npairs st"
          "es st3 = es st" "same_setup st st3"
        unfolding st3_def q2 using ps kb(1) by (simp_all add: same_setup_def)
      have "process_line st site
              = (if calc_hwe_prob st3 \<and> calc_ac site = None then Inl Calc_ac_failed
                 else Inr (process_pairs hwe nqry1 ngt1 ps site st3))"
        using fl(1) by (simp add: process_line_def f1 Some f2 r2 Let_def st3_def hwe_def)
      then have r: "st' = process_pairs hwe nqry1 ngt1 ps site st3"
        using run by (simp split: if_splits)
      have pr: "pair_result st3 nqry1 ngt1 ps i = pair_result st2 nqry1 ngt1 ps i" for i
        by (simp add: pair_result_def gt_view_def st3_def)
      have d: "discordant_at st site = (\<lambda>i. pair_result st3 nqry1 ngt1 ps i = Mismatch)"
        by (rule ext) (simp add: discordant_at_def c ps pr)
      have l3: "length bs = npairs st3" using kb(2) fl(3) by simp
      obtain nd nc hw where pp: "process_pairs hwe nqry1 ngt1 ps site st3 =
           st3\<lparr>ndiff := nd, ncnt := nc, hwe_prob := hw,
              kbs_diff := Some (map (discordant_at st site) [0..<npairs st3]),
              es := es st3 @
                (if \<exists>i<npairs st3. discordant_at st site i
                 then [Diff_site
                         (of_nat (length (filter (discordant_at st site) [0..<npairs st3])))
                         (rec_rid site) (rec_pos site) (rand_val site)
                         (map (discordant_at st site) [0..<npairs st3])]
                 else [])\<rparr>"
        using process_pairs_state [OF fl(2) l3, of hwe nqry1 ngt1 ps site] unfolding d by blast
      show ?thesis
        unfolding r pp using fl by (simp add: same_setup_def)
    qed
  qed
qed

lemma bits_of_record:
  "(\<Union>r\<in>set (if \<exists>i<N. D i then [Diff_site n rid pos rnd (map D [0..<N])] else []).
       set (kbs_elems (kbs_dat r))) = {i. i < N \<and> D i}"
  by (auto simp: kbs_elems_map)

text \<open>
  The whole stream: the records the sorter has been handed hold, together, the pairs that
  are discordant at some record of the stream, each has one bit per pair, and the count
  stored in each is the number of its set bits.
\<close>

lemma main_loop_records:
  assumes "main_loop st sites = Inr st'" and "pairs st = Some ps"
    and "kbs_diff st = Some bs" and "length bs = npairs st" and "\<not> dry_run st"
  shows "same_setup st st'
     \<and> (\<exists>recs. es st' = es st @ recs
          \<and> (\<forall>r\<in>set recs. length (kbs_dat r) = npairs st
                \<and> dat_ndiff r = of_nat (length (kbs_elems (kbs_dat r))))
          \<and> (\<Union>r\<in>set recs. set (kbs_elems (kbs_dat r)))
              = {i. i < npairs st \<and> (\<exists>site\<in>set sites. discordant_at st site i)})"
  using assms
proof (induction sites arbitrary: st bs)
  case Nil
  then show ?case by (simp add: same_setup_refl)
next
  case (Cons site sites)
  show ?case
  proof (cases "gt_hdr st \<and> sr_ret site \<noteq> 2")
    case True
    then have m: "main_loop st sites = Inr st'" using Cons.prems(1) by simp
    have no: "\<not> discordant_at st site i" for i
      using True by (simp add: discordant_at_def compared_state_def)
    show ?thesis
      using Cons.IH [OF m Cons.prems(2-5)] no by simp
  next
    case False
    obtain st1 where p: "process_line st site = Inr st1"
      using Cons.prems(1) False by (cases "process_line st site") simp_all
    let ?rec = "if \<exists>i<npairs st. discordant_at st site i
          then [Diff_site (of_nat (length (filter (discordant_at st site) [0..<npairs st])))
                  (rec_rid site) (rec_pos site) (rand_val site)
                  (map (discordant_at st site) [0..<npairs st])]
          else []"
    obtain bs1 where s1: "same_setup st st1" and k1: "kbs_diff st1 = Some bs1" "length bs1 = npairs st"
      and e1: "es st1 = es st @ ?rec"
      using process_line_pairs [OF Cons.prems(2-4) p False] by blast
    have c1: "pairs st1 = Some ps" "npairs st1 = npairs st" "\<not> dry_run st1"
      using s1 Cons.prems(2,5) by (simp_all add: same_setup_def)
    have m: "main_loop st1 sites = Inr st'"
      using Cons.prems(1) False p c1(3) by simp
    have l1: "length bs1 = npairs st1" using k1(2) c1(2) by simp
    obtain recs where s2: "same_setup st1 st'" and e2: "es st' = es st1 @ recs"
      and w2: "\<forall>r\<in>set recs. length (kbs_dat r) = npairs st1
                \<and> dat_ndiff r = of_nat (length (kbs_elems (kbs_dat r)))"
      and b2: "(\<Union>r\<in>set recs. set (kbs_elems (kbs_dat r)))
              = {i. i < npairs st1 \<and> (\<exists>site\<in>set sites. discordant_at st1 site i)}"
      using Cons.IH [OF m c1(1) k1(1) l1 c1(3)] by blast
    have w1: "\<forall>r\<in>set ?rec. length (kbs_dat r) = npairs st
                \<and> dat_ndiff r = of_nat (length (kbs_elems (kbs_dat r)))"
      by (simp add: kbs_elems_map)
    have b1: "(\<Union>r\<in>set ?rec. set (kbs_elems (kbs_dat r))) = {i. i < npairs st \<and> discordant_at st site i}"
      by (rule bits_of_record)
    have b2': "(\<Union>r\<in>set recs. set (kbs_elems (kbs_dat r)))
              = {i. i < npairs st \<and> (\<exists>site\<in>set sites. discordant_at st site i)}"
      unfolding b2 c1(2) by (simp add: discordant_at_setup [OF s1])
    have e: "es st' = es st @ (?rec @ recs)" unfolding e2 e1 by simp
    have w: "\<forall>r\<in>set (?rec @ recs). length (kbs_dat r) = npairs st
                \<and> dat_ndiff r = of_nat (length (kbs_elems (kbs_dat r)))"
      using w1 w2 unfolding c1(2) by (simp only: set_append ball_Un)
    have b: "(\<Union>r\<in>set (?rec @ recs). set (kbs_elems (kbs_dat r)))
              = {i. i < npairs st \<and> (\<exists>s\<in>set (site # sites). discordant_at st s i)}"
      unfolding set_append UN_Un b1 b2' by auto
    show ?thesis
      using same_setup_trans [OF s1 s2] e w b by blast
  qed
qed

text \<open>
  Without the explicit pairs the matrix loops run, and they hand nothing to the sorter.
  This is the run with a \<open>-g\<close> file: \<open>init_data\<close> reads the pairs in the last but one
  branch of the chain of lines 281-362, which is not reached when \<open>args->gt_hdr\<close> is set.
\<close>

lemma inner_keeps:
  assumes "\<And>h i j idx s. f (body h i j idx s) = f s"
  shows "f (snd (fold (\<lambda>j (idx, s). (idx + 1, body h i j idx s)) xs (idx0, s0))) = f s0"
  by (induction xs arbitrary: idx0 s0) (simp_all add: assms)

lemma matrix_loops_keeps:
  assumes "\<And>h i j idx s. f (body h i j idx s) = f s"
  shows "f (snd (matrix_loops cross nqry ngts row body s0)) = f s0"
  unfolding matrix_loops_def
proof (induction nqry)
  case 0
  show ?case by simp
next
  case (Suc n)
  obtain idx s where p: "fold (\<lambda>i (idx, s).
        let ngt = (if cross then i else ngts) in
        case row i s of
          None \<Rightarrow> (idx + ngt, s)
        | Some h \<Rightarrow> fold (\<lambda>j (idx, s). (idx + 1, body h i j idx s)) [0..<ngt] (idx, s))
       [0..<n] (0, s0) = (idx, s)"
    by (cases "fold (\<lambda>i (idx, s).
        let ngt = (if cross then i else ngts) in
        case row i s of
          None \<Rightarrow> (idx + ngt, s)
        | Some h \<Rightarrow> fold (\<lambda>j (idx, s). (idx + 1, body h i j idx s)) [0..<ngt] (idx, s))
       [0..<n] (0, s0)") auto
  have s: "f s = f s0" using Suc.IH unfolding p by simp
  show ?case
    unfolding upt_Suc_append [OF le0] fold_append comp_apply p
    using s inner_keeps [of f body, OF assms]
    by (simp add: Let_def split: option.splits)
qed

lemma update_keeps: "es (update hwe i r st) = es st" "pairs (update hwe i r st) = pairs st"
  by (simp_all add: update_def split: result.splits)

lemma gt_write_keeps: "es (gt_write k v st) = es st" "pairs (gt_write k v st) = pairs st"
  by (simp_all add: gt_write_def)

lemma process_matrix_keeps:
  "es (process_matrix hwe nqry1 ngt1 st) = es st"
  unfolding process_matrix_def
  by (simp add: matrix_loops_keeps [of es] body_GT_GT_def body_PL_PL_def body_GT_PL_def
        body_PL_GT_def update_keeps gt_write_keeps Let_def)

lemma process_matrix_keeps_pairs:
  "pairs (process_matrix hwe nqry1 ngt1 st) = pairs st"
  unfolding process_matrix_def
  by (simp add: matrix_loops_keeps [of pairs] body_GT_GT_def body_PL_PL_def body_GT_PL_def
        body_PL_GT_def update_keeps gt_write_keeps Let_def)

lemma process_line_matrix_keeps:
  assumes "pairs st = None" and "process_line st site = Inr st'"
  shows "es st' = es st \<and> pairs st' = None"
  using assms
  by (auto simp: process_line_def fetch_qry_def fetch_gt_def Let_def process_matrix_keeps
        process_matrix_keeps_pairs split: if_splits)

lemma main_loop_matrix_keeps:
  "pairs st = None \<Longrightarrow> main_loop st sites = Inr st' \<Longrightarrow> es st' = es st"
proof (induction sites arbitrary: st)
  case Nil
  then show ?case by simp
next
  case (Cons site sites)
  show ?case
  proof (cases "gt_hdr st \<and> sr_ret site \<noteq> 2")
    case True
    then show ?thesis using Cons by simp
  next
    case False
    obtain st1 where p: "process_line st site = Inr st1"
      using Cons.prems(2) False by (cases "process_line st site") simp_all
    have k: "es st1 = es st" "pairs st1 = None"
      using process_line_matrix_keeps [OF Cons.prems(1) p] by simp_all
    show ?thesis
    proof (cases "ncmp st1 = 1 \<and> dry_run st1")
      case True
      then have "st' = st1" using Cons.prems(2) False p by simp
      then show ?thesis using k(1) by simp
    next
      case stop: False
      have "main_loop st1 sites = Inr st'" using Cons.prems(2) False p stop by auto
      then show ?thesis using Cons.IH [OF k(2)] k(1) by simp
    qed
  qed
qed

section \<open>Facts about the blocks of the distinctive sites\<close>

lemma set_kbs_elems: "set (kbs_elems bs) = {p. p < length bs \<and> bs ! p}"
  by (auto simp: kbs_elems_def)

lemma distinct_kbs_elems: "distinct (kbs_elems bs)"
  by (simp add: kbs_elems_def)

lemma set_kbs_elems_insert:
  "x < length b \<Longrightarrow> set (kbs_elems (kbs_insert b x)) = insert x (set (kbs_elems b))"
  by (auto simp: set_kbs_elems kbs_insert_def nth_list_update)

lemma scan_fold_spec:
  "distinct xs \<Longrightarrow> set xs \<subseteq> {0..<length b0}
   \<Longrightarrow> fold (\<lambda>i (b, ndiff_new, ndiff_dbg).
             if kbs_exists b i then (b, ndiff_new, ndiff_dbg + 1)
             else (kbs_insert b i, ndiff_new + 1, ndiff_dbg + 1)) xs (b0, n, d) = (b', n', d')
   \<Longrightarrow> length b' = length b0
       \<and> set (kbs_elems b') = set (kbs_elems b0) \<union> set xs
       \<and> n' = n + card (set xs - set (kbs_elems b0))"
proof (induction xs arbitrary: b0 n d)
  case Nil
  then show ?case by simp
next
  case (Cons x xs)
  have x: "x < length b0" "x \<notin> set xs" "distinct xs" "set xs \<subseteq> {0..<length b0}"
    using Cons.prems(1,2) by auto
  show ?case
  proof (cases "kbs_exists b0 x")
    case True
    then have xin: "x \<in> set (kbs_elems b0)"
      using x(1) by (simp add: set_kbs_elems kbs_exists_def)
    have f: "fold (\<lambda>i (b, ndiff_new, ndiff_dbg).
             if kbs_exists b i then (b, ndiff_new, ndiff_dbg + 1)
             else (kbs_insert b i, ndiff_new + 1, ndiff_dbg + 1)) xs (b0, n, d + 1) = (b', n', d')"
      using Cons.prems(3) True by simp
    have eq: "set (x # xs) - set (kbs_elems b0) = set xs - set (kbs_elems b0)"
      using xin by auto
    show ?thesis
      using Cons.IH [OF x(3,4) f] xin unfolding eq by auto
  next
    case False
    then have xnot: "x \<notin> set (kbs_elems b0)"
      using x(1) by (simp add: set_kbs_elems kbs_exists_def)
    have len: "length (kbs_insert b0 x) = length b0" by (simp add: kbs_insert_def)
    have f: "fold (\<lambda>i (b, ndiff_new, ndiff_dbg).
             if kbs_exists b i then (b, ndiff_new, ndiff_dbg + 1)
             else (kbs_insert b i, ndiff_new + 1, ndiff_dbg + 1)) xs (kbs_insert b0 x, n + 1, d + 1)
               = (b', n', d')"
      using Cons.prems(3) False by simp
    have s4: "set xs \<subseteq> {0..<length (kbs_insert b0 x)}" using x(4) len by simp
    have ih: "length b' = length b0
       \<and> set (kbs_elems b') = insert x (set (kbs_elems b0)) \<union> set xs
       \<and> n' = n + 1 + card (set xs - insert x (set (kbs_elems b0)))"
      using Cons.IH [OF x(3) s4 f] by (simp add: len set_kbs_elems_insert [OF x(1)])
    have e1: "set xs - insert x (set (kbs_elems b0)) = set xs - set (kbs_elems b0)"
      using x(2) by auto
    have e2: "set (x # xs) - set (kbs_elems b0) = insert x (set xs - set (kbs_elems b0))"
      using xnot by auto
    have c: "card (insert x (set xs - set (kbs_elems b0))) = Suc (card (set xs - set (kbs_elems b0)))"
      using x(2) by (subst card_insert_disjoint) auto
    show ?thesis
      using ih unfolding e1 e2 c by auto
  qed
qed

lemma scan_bits_spec:
  assumes "length dat = length blk"
  shows "length (fst (scan_bits dat blk)) = length blk"
    and "set (kbs_elems (fst (scan_bits dat blk))) = set (kbs_elems blk) \<union> set (kbs_elems dat)"
    and "fst (snd (scan_bits dat blk)) = card (set (kbs_elems dat) - set (kbs_elems blk))"
proof -
  obtain b' n' d' where s: "scan_bits dat blk = (b', n', d')"
    by (cases "scan_bits dat blk") auto
  have sub: "set (kbs_elems dat) \<subseteq> {0..<length blk}"
    using assms by (auto simp: set_kbs_elems)
  have "length b' = length blk
       \<and> set (kbs_elems b') = set (kbs_elems blk) \<union> set (kbs_elems dat)
       \<and> n' = 0 + card (set (kbs_elems dat) - set (kbs_elems blk))"
    using s unfolding scan_bits_def
    by (rule scan_fold_spec [OF distinct_kbs_elems sub])
  then show "length (fst (scan_bits dat blk)) = length blk"
    and "set (kbs_elems (fst (scan_bits dat blk))) = set (kbs_elems blk) \<union> set (kbs_elems dat)"
    and "fst (snd (scan_bits dat blk)) = card (set (kbs_elems dat) - set (kbs_elems blk))"
    by (simp_all add: s)
qed


lemma set_kbs_elems_bound: "length bs = n \<Longrightarrow> set (kbs_elems bs) \<subseteq> {0..<n}"
  by (auto simp: set_kbs_elems)

lemma kbs_elems_clear: "kbs_elems (kbs_clear bs) = []"
  by (simp add: kbs_elems_def kbs_clear_def filter_empty_conv)

lemma kbs_elems_init: "kbs_elems (kbs_init n) = []"
  by (simp add: kbs_elems_def kbs_init_def filter_empty_conv)

lemma drain_length: "drain m rs s = Inr outs \<Longrightarrow> length outs = length rs"
proof (induction rs arbitrary: s outs)
  case Nil
  then show ?case by simp
next
  case (Cons r rs)
  obtain kbs_blk ndiff_tot iblock where s: "s = (kbs_blk, ndiff_tot, iblock)"
    by (cases s) auto
  show ?case
    using Cons.prems Cons.IH unfolding s drain_Cons
    by (auto simp: Let_def map_sum_def split: if_splits sum.splits)
qed

lemma drain_ok:
  assumes "\<forall>r\<in>set rs. int (length (kbs_elems (kbs_dat r))) = sint (dat_ndiff r)"
  shows "\<exists>outs. drain m rs s = Inr outs \<and> length outs = length rs"
proof -
  have "\<not> (\<exists>e. drain m rs s = Inl e)"
    using assms by (simp add: drain_Inl_iff)
  then obtain outs where "drain m rs s = Inr outs"
    by (cases "drain m rs s") auto
  then show ?thesis using drain_length by blast
qed

lemma block_pairs_Nil: "block_pairs b [] outs = {}"
  by (simp add: block_pairs_def)

lemma block_pairs_Cons:
  "block_pairs b (r # rs) (out # outs) =
     (case out of
        Some l \<Rightarrow> if ds_block l = b then set (kbs_elems (kbs_dat r)) else {}
      | None \<Rightarrow> {}) \<union> block_pairs b rs outs"
  by (simp add: block_pairs_def)

lemma block_pairs_subset: "block_pairs b rs outs \<subseteq> (\<Union>r\<in>set rs. set (kbs_elems (kbs_dat r)))"
  by (auto simp: block_pairs_def split: option.splits if_splits dest: set_zip_leftD)

lemma drain_block0:
  assumes "\<forall>r\<in>set rs. length (kbs_dat r) = n
             \<and> int (length (kbs_elems (kbs_dat r))) = sint (dat_ndiff r)"
    and "length blk = n" and "tot = card (set (kbs_elems blk))"
  shows "\<exists>outs. drain n rs (blk, tot, 0) = Inr outs \<and> length outs = length rs
      \<and> (\<Union>r\<in>set rs. set (kbs_elems (kbs_dat r))) \<subseteq> set (kbs_elems blk) \<union> block_pairs 0 rs outs
      \<and> ((\<exists>l. Some l \<in> set outs \<and> ds_block l \<noteq> 0)
           \<longrightarrow> set (kbs_elems blk) \<union> block_pairs 0 rs outs = {0..<n})"
  using assms
proof (induction rs arbitrary: blk tot)
  case Nil
  show ?case by (simp add: block_pairs_Nil)
next
  case (Cons r rs)
  let ?dat = "kbs_dat r"
  let ?blk' = "fst (scan_bits ?dat blk)"
  let ?new = "fst (snd (scan_bits ?dat blk))"
  have wf: "\<forall>r\<in>set rs. length (kbs_dat r) = n
             \<and> int (length (kbs_elems (kbs_dat r))) = sint (dat_ndiff r)"
    using Cons.prems(1) by simp
  have ok: "int (length (kbs_elems ?dat)) = sint (dat_ndiff r)" and ld: "length ?dat = length blk"
    using Cons.prems(1,2) by simp_all
  have l': "length ?blk' = n"
    and s': "set (kbs_elems ?blk') = set (kbs_elems blk) \<union> set (kbs_elems ?dat)"
    and nw: "?new = card (set (kbs_elems ?dat) - set (kbs_elems blk))"
    using scan_bits_spec [OF ld] Cons.prems(2) by simp_all
  have c': "card (set (kbs_elems ?blk')) = tot + ?new"
    unfolding s' nw Cons.prems(3)
    using card_Un_disjoint [of "set (kbs_elems blk)" "set (kbs_elems ?dat) - set (kbs_elems blk)"]
    by (simp add: Un_Diff_cancel Int_Diff)
  have bd: "set (kbs_elems ?dat) \<subseteq> {0..<n}" "set (kbs_elems ?blk') \<subseteq> {0..<n}"
    using set_kbs_elems_bound [of ?dat n] set_kbs_elems_bound [OF l'] ld Cons.prems(2) by simp_all
  have all_bd: "(\<Union>r\<in>set rs. set (kbs_elems (kbs_dat r))) \<subseteq> {0..<n}"
    using wf set_kbs_elems_bound by blast
  consider (none) "?new = 0" | (more) "?new \<noteq> 0" "tot + ?new < n" | (full) "?new \<noteq> 0" "\<not> tot + ?new < n"
    by blast
  then show ?case
  proof cases
    case none
    have sub: "set (kbs_elems ?dat) \<subseteq> set (kbs_elems blk)"
      using none unfolding nw by (simp add: card_eq_0_iff)
    have c0: "tot = card (set (kbs_elems ?blk'))" using c' none by simp
    obtain outs where o: "drain n rs (?blk', tot, 0) = Inr outs" "length outs = length rs"
      and cov: "(\<Union>r\<in>set rs. set (kbs_elems (kbs_dat r)))
                  \<subseteq> set (kbs_elems ?blk') \<union> block_pairs 0 rs outs"
      and late: "(\<exists>l. Some l \<in> set outs \<and> ds_block l \<noteq> 0)
           \<longrightarrow> set (kbs_elems ?blk') \<union> block_pairs 0 rs outs = {0..<n}"
      using Cons.IH [OF wf l' c0] by blast
    have d: "drain n (r # rs) (blk, tot, 0) = Inr (None # outs)"
      using ok none o(1) by (simp add: drain_Cons Let_def)
    have e: "set (kbs_elems ?blk') = set (kbs_elems blk)" using s' sub by auto
    show ?thesis
      using d o(2) cov late sub unfolding e
      by (auto simp: block_pairs_Cons)
  next
    case more
    have c0: "tot + ?new = card (set (kbs_elems ?blk'))" using c' by simp
    obtain outs where o: "drain n rs (?blk', tot + ?new, 0) = Inr outs" "length outs = length rs"
      and cov: "(\<Union>r\<in>set rs. set (kbs_elems (kbs_dat r)))
                  \<subseteq> set (kbs_elems ?blk') \<union> block_pairs 0 rs outs"
      and late: "(\<exists>l. Some l \<in> set outs \<and> ds_block l \<noteq> 0)
           \<longrightarrow> set (kbs_elems ?blk') \<union> block_pairs 0 rs outs = {0..<n}"
      using Cons.IH [OF wf l' c0] by blast
    let ?l = "DS (sint (dat_rid r)) (sint (dat_pos r + 1)) (tot + ?new) 0"
    have d: "drain n (r # rs) (blk, tot, 0) = Inr (Some ?l # outs)"
      using ok more o(1) by (simp add: drain_Cons Let_def)
    show ?thesis
      using d o(2) cov late unfolding s'
      by (auto simp: block_pairs_Cons)
  next
    case full
    have "n \<le> card (set (kbs_elems ?blk'))" using c' full(2) by simp
    moreover have "card (set (kbs_elems ?blk')) \<le> card {0..<n}"
      using bd(2) by (intro card_mono) simp_all
    ultimately have "card (set (kbs_elems ?blk')) = card {0..<n}" by simp
    then have all: "set (kbs_elems ?blk') = {0..<n}"
      using bd(2) by (intro card_subset_eq) simp_all
    obtain outs where o: "drain n rs (kbs_clear ?blk', 0, 0 + 1) = Inr outs" "length outs = length rs"
      using drain_ok [of rs n] wf by blast
    let ?l = "DS (sint (dat_rid r)) (sint (dat_pos r + 1)) (tot + ?new) 0"
    have d: "drain n (r # rs) (blk, tot, 0) = Inr (Some ?l # outs)"
      using ok full o(1) by (simp add: drain_Cons Let_def)
    have bp: "block_pairs 0 (r # rs) (Some ?l # outs) = set (kbs_elems ?dat) \<union> block_pairs 0 rs outs"
      by (simp add: block_pairs_Cons)
    have bps: "block_pairs 0 rs outs \<subseteq> {0..<n}"
      using block_pairs_subset [of 0 rs outs] all_bd by blast
    have u: "set (kbs_elems blk) \<union> block_pairs 0 (r # rs) (Some ?l # outs) = {0..<n}"
      unfolding bp using all s' bps by auto
    show ?thesis
      using d o(2) u all_bd bd(1) by (intro exI [of _ "Some ?l # outs"]) auto
  qed
qed

text \<open>
  The count of a record is stored in a \<open>uint32_t\<close> and read back into an \<open>int\<close>: with
  fewer than \<open>2^31\<close> pairs it is read back as it was stored.
\<close>

lemma stored_count_read_back:
  assumes "length (kbs_dat r) = n" and "dat_ndiff r = of_nat (length (kbs_elems (kbs_dat r)))"
    and "n < 2 ^ 31"
  shows "int (length (kbs_elems (kbs_dat r))) = sint (dat_ndiff r)"
proof -
  have "length (kbs_elems (kbs_dat r)) \<le> n"
    using length_filter_le [of "\<lambda>i. kbs_dat r ! i" "[0..<length (kbs_dat r)]"] assms(1)
    by (simp add: kbs_elems_def)
  then have "length (kbs_elems (kbs_dat r)) < 2 ^ 31" using assms(3) by simp
  then show ?thesis
    unfolding assms(2) by (simp add: sint_of_nat_int32)
qed

lemma extsort_result_set: "extsort_result pushed out \<Longrightarrow> set out = set pushed"
  by (metis extsort_result_def set_mset_mset)

text \<open>
  C4, as amended.  A run over the explicit pairs (\<open>args->pairs\<close> is set, which
  \<open>init_data\<close> does when the pairs are given and there is no \<open>-g\<close> file) that starts with
  the bitset and the empty sorter of \<open>diff_sites_init\<close>, with a threshold equal to the
  number of pairs and fewer than \<open>2^31\<close> pairs.  When the main loop has read the records
  \<open>sites\<close> and the sorter hands back the records it was given, the drain ends without an
  error, and the sites printed with the block id 0 hold, together, exactly the pairs
  that are discordant at some record of the input.  A line with a later block id is
  printed only after block 0 has come to hold every one of the \<open>n_pairs\<close> pairs.
\<close>

theorem block_zero_holds_every_discordant_pair:
  assumes "pairs st0 = Some ps" and "kbs_diff st0 = Some bs" and "length bs = npairs st0"
    and "es st0 = []" and "\<not> dry_run st0"
    and "distinctive_sites st0 = npairs st0" and "npairs st0 < 2 ^ 31"
    and "main_loop st0 sites = Inr st" and "extsort_result (es st) rs"
  shows "\<exists>outs. drain_all st rs = Inr outs \<and> length outs = length rs
      \<and> report_distinctive_sites st rs = Inr (List.map_filter id outs)
      \<and> block_pairs 0 rs outs
          = {i. i < npairs st0 \<and> (\<exists>site\<in>set sites. discordant_at st0 site i)}
      \<and> ((\<exists>l. Some l \<in> set outs \<and> ds_block l \<noteq> 0)
           \<longrightarrow> block_pairs 0 rs outs = {0..<npairs st0})"
proof -
  let ?N = "npairs st0"
  obtain recs where s: "same_setup st0 st" and e: "es st = es st0 @ recs"
    and w: "\<forall>r\<in>set recs. length (kbs_dat r) = ?N
              \<and> dat_ndiff r = of_nat (length (kbs_elems (kbs_dat r)))"
    and b: "(\<Union>r\<in>set recs. set (kbs_elems (kbs_dat r)))
              = {i. i < ?N \<and> (\<exists>site\<in>set sites. discordant_at st0 site i)}"
    using main_loop_records [OF assms(8,1,2,3,5)] by blast
  have rs: "set rs = set recs"
    using extsort_result_set [OF assms(9)] e assms(4) by simp
  have wf: "\<forall>r\<in>set rs. length (kbs_dat r) = ?N
             \<and> int (length (kbs_elems (kbs_dat r))) = sint (dat_ndiff r)"
    unfolding rs using w stored_count_read_back [OF _ _ assms(7)] by blast
  have c: "npairs st = ?N" "distinctive_sites st = ?N"
    using s assms(6) by (simp_all add: same_setup_def)
  have l: "length (kbs_init ?N) = ?N" by (simp add: kbs_init_def)
  have t: "0 = card (set (kbs_elems (kbs_init ?N)))" by (simp add: kbs_elems_init)
  obtain outs where o: "drain ?N rs (kbs_init ?N, 0, 0) = Inr outs" "length outs = length rs"
    and cov: "(\<Union>r\<in>set rs. set (kbs_elems (kbs_dat r))) \<subseteq> block_pairs 0 rs outs"
    and late: "(\<exists>l. Some l \<in> set outs \<and> ds_block l \<noteq> 0)
           \<longrightarrow> block_pairs 0 rs outs = {0..<?N}"
    using drain_block0 [OF wf l t] by (auto simp: kbs_elems_init)
  have "block_pairs 0 rs outs = (\<Union>r\<in>set rs. set (kbs_elems (kbs_dat r)))"
    using cov block_pairs_subset [of 0 rs outs] by blast
  then have eq: "block_pairs 0 rs outs
          = {i. i < ?N \<and> (\<exists>site\<in>set sites. discordant_at st0 site i)}"
    unfolding rs b .
  have d: "drain_all st rs = Inr outs"
    using o(1) c by (simp add: drain_all_def)
  show ?thesis
    using d o(2) eq late by (simp add: report_distinctive_sites_def)
qed

lemmas drain_eval = report_distinctive_sites_def drain_all_def drain_Cons scan_bits_def
  kbs_elems_def kbs_init_def kbs_clear_def kbs_insert_def kbs_exists_def upt_conv_Cons
  List.map_filter_def Let_def

lemma kbs_init_2: "kbs_init 2 = [False, False]"
  by (simp add: kbs_init_def numeral_2_eq_2)

lemmas sites_eval = process_line_def fetch_qry_def fetch_gt_def per_sample_def process_pairs_def
  pairs_body_def pair_result_def compare_pair_def cmp_GT_GT_def update_def gt_view_def
  diff_sites_reset_def diff_sites_push_def kbs_init_2 kbs_clear_def kbs_insert_def
  args_sites_def args0_def site_a_def site_b_def site_c_def line0_def upt_conv_Cons Let_def

text \<open>
  Two runs of \<open>args_sites\<close>: over two records at which the second pair is discordant,
  and over a record at which both pairs are discordant followed by one at which the
  second pair is.
\<close>

lemma run_a_b:
  "main_loop args_sites [site_a, site_b]
     = Inr (args_sites\<lparr>ndiff := [0, 2], ncnt := [2, 2], ncmp := 2,
              qry_arr := [2, 2, 2, 2, 4, 4], kbs_diff := Some [False, True],
              es := [Diff_site 1 0 10 5 [False, True], Diff_site 1 0 20 6 [False, True]]\<rparr>)"
  by (simp add: sites_eval eval_defs)

lemma run_c_a:
  "main_loop args_sites [site_c, site_a]
     = Inr (args_sites\<lparr>ndiff := [1, 2], ncnt := [2, 2], ncmp := 2,
              qry_arr := [2, 2, 2, 2, 4, 4], kbs_diff := Some [False, True],
              es := [Diff_site 2 0 100 7 [True, True], Diff_site 1 0 10 5 [False, True]]\<rparr>)"
  by (simp add: sites_eval eval_defs)

theorem block_zero_holds_every_discordant_pair_witness:
  "\<exists>st. main_loop args_sites [site_a, site_b] = Inr st
     \<and> es st = [Diff_site 1 0 10 5 [False, True], Diff_site 1 0 20 6 [False, True]]
     \<and> extsort_result (es st) [Diff_site 1 0 10 5 [False, True], Diff_site 1 0 20 6 [False, True]]
     \<and> report_distinctive_sites st
          [Diff_site 1 0 10 5 [False, True], Diff_site 1 0 20 6 [False, True]]
         = Inr [DS 0 11 1 0]
     \<and> block_pairs 0 [Diff_site 1 0 10 5 [False, True], Diff_site 1 0 20 6 [False, True]]
          [Some (DS 0 11 1 0), None] = {1}
     \<and> {i. i < npairs args_sites
            \<and> (\<exists>site\<in>set [site_a, site_b]. discordant_at args_sites site i)} = {1}"
proof -
  let ?rs = "[Diff_site 1 0 10 5 [False, True], Diff_site 1 0 20 6 [False, True]]"
  define st where "st = args_sites\<lparr>ndiff := [0, 2], ncnt := [2, 2], ncmp := 2,
              qry_arr := [2, 2, 2, 2, 4, 4], kbs_diff := Some [False, True], es := ?rs\<rparr>"
  have m: "main_loop args_sites [site_a, site_b] = Inr st"
    unfolding st_def by (rule run_a_b)
  have e: "es st = ?rs" by (simp add: st_def)
  have x: "extsort_result (es st) ?rs"
    unfolding e by (simp add: extsort_result_def diff_sites_cmp_def upt_conv_Cons)
  have d: "drain_all st ?rs = Inr [Some (DS 0 11 1 0), None]"
    by (simp add: drain_eval st_def args_sites_def args0_def)
  have r: "report_distinctive_sites st ?rs = Inr [DS 0 11 1 0]"
    by (simp add: drain_eval st_def args_sites_def args0_def)
  have k: "kbs_elems [False, True] = [1]"
    by (simp add: kbs_elems_def upt_conv_Cons)
  have bp: "block_pairs 0 ?rs [Some (DS 0 11 1 0), None] = {1}"
    by (simp add: block_pairs_def k)
  have h: "pairs args_sites = Some [(0, 1), (0, 2)]" "kbs_diff args_sites = Some (kbs_init 2)"
      "length (kbs_init 2) = npairs args_sites" "es args_sites = []" "\<not> dry_run args_sites"
      "distinctive_sites args_sites = npairs args_sites" "npairs args_sites < 2 ^ 31"
    by (simp_all add: args_sites_def args0_def kbs_init_2)
  obtain outs where o: "drain_all st ?rs = Inr outs"
    and b: "block_pairs 0 ?rs outs
          = {i. i < npairs args_sites
               \<and> (\<exists>site\<in>set [site_a, site_b]. discordant_at args_sites site i)}"
    using block_zero_holds_every_discordant_pair [OF h m x] by blast
  have "outs = [Some (DS 0 11 1 0), None]" using o d by simp
  then have s: "{i. i < npairs args_sites
            \<and> (\<exists>site\<in>set [site_a, site_b]. discordant_at args_sites site i)} = {1}"
    using b bp by simp
  show ?thesis
    using m e x r bp s by blast
qed

text \<open>
  Two pairs, threshold two: the first record distinguishes both pairs and closes block 0,
  and the site of the second record is printed with the block id 1.
\<close>

theorem second_block_counterexample:
  "\<exists>st. main_loop args_sites [site_c, site_a] = Inr st
     \<and> distinctive_sites st = npairs st
     \<and> es st = [Diff_site 2 0 100 7 [True, True], Diff_site 1 0 10 5 [False, True]]
     \<and> extsort_result (es st) [Diff_site 2 0 100 7 [True, True], Diff_site 1 0 10 5 [False, True]]
     \<and> report_distinctive_sites st
          [Diff_site 2 0 100 7 [True, True], Diff_site 1 0 10 5 [False, True]]
         = Inr [DS 0 101 2 0, DS 0 11 1 1]"
proof -
  let ?rs = "[Diff_site 2 0 100 7 [True, True], Diff_site 1 0 10 5 [False, True]]"
  define st where "st = args_sites\<lparr>ndiff := [1, 2], ncnt := [2, 2], ncmp := 2,
              qry_arr := [2, 2, 2, 2, 4, 4], kbs_diff := Some [False, True], es := ?rs\<rparr>"
  have m: "main_loop args_sites [site_c, site_a] = Inr st"
    unfolding st_def by (rule run_c_a)
  have e: "es st = ?rs" by (simp add: st_def)
  have t: "distinctive_sites st = npairs st" by (simp add: st_def args_sites_def args0_def)
  have x: "extsort_result (es st) ?rs"
    unfolding e by (simp add: extsort_result_def diff_sites_cmp_def upt_conv_Cons)
  have r: "report_distinctive_sites st ?rs = Inr [DS 0 101 2 0, DS 0 11 1 1]"
    by (simp add: drain_eval st_def args_sites_def args0_def)
  show ?thesis
    using m e t x r by blast
qed

section \<open>Facts about the counters\<close>





















text \<open>The arrays of \<open>init_data\<close> are where the stream starts.\<close>

lemma init_arrays_zeroed:
  "ndiff (init_arrays st) = replicate (npairs (init_arrays st)) 0"
  "ncnt (init_arrays st) = replicate (npairs (init_arrays st)) 0"
  by (simp_all add: init_arrays_def)










end
